theory Spec2Isabelle
  imports Complex_Main "HOL-Library.List_Lexorder" "HOL-Library.Char_ord" "HOL-Library.Sublist"
begin

section \<open>Data model of the dataset viewer\<close>

text \<open>
  The program is the class \<open>DatasetViewer\<close> of \<open>src/scripts/datasetViewer.js\<close>.
  A sample is one parsed line of the JSONL file. Only the fields the filter and the
  navigation read are kept: \<open>id\<close>, \<open>type\<close>, \<open>task_name\<close> and \<open>key_frame_ids\<close>.
  A missing \<open>task_name\<close> is the empty string (both are falsy in JavaScript and both
  differ from every non-empty task name); a missing \<open>key_frame_ids\<close> is \<open>None\<close>, an
  empty array is \<open>Some []\<close> (truthy in JavaScript).
\<close>

record Sample =
  sample_id :: string
  item_type :: string
  task_name :: string
  key_frame_ids :: "string list option"

text \<open>What \<open>updateUI\<close> last wrote into the element \<open>data-display\<close>.\<close>

datatype view = Loading | NoData | ShowSample Sample

text \<open>
  The fields of the class. \<open>currentSetting\<close> and \<open>currentTaskName\<close> are strings, the
  empty string meaning "no filter" (it is the falsy value the code tests for).
  \<open>currentStepLength\<close> is in the source the empty string or \<open>String(n)\<close> for a length
  \<open>n\<close>, read back with \<open>parseInt\<close>; it is modelled as \<open>nat option\<close>, \<open>None\<close> for the empty
  string and \<open>Some n\<close> for \<open>String(n)\<close> (a non-empty string is truthy, also \<open>"0"\<close>).
  \<open>currentIndex\<close> is a JavaScript number, here an \<open>int\<close>.
  \<open>stepOptions\<close> are the option values of the element \<open>step-select\<close>, which
  \<open>updateFilterUI\<close> reads back; \<open>dataDisplay\<close> is the content of \<open>data-display\<close>.
  The three select elements and the display element are taken to be in the page.
\<close>

record DatasetViewer =
  allData :: "Sample list"
  filteredData :: "Sample list"
  currentIndex :: int
  currentSetting :: string
  currentTaskName :: string
  currentStepLength :: "nat option"
  availableTaskNames :: "string list"
  availableStepLengths :: "nat list"
  showAnswer :: bool
  stepOptions :: "nat list"
  dataDisplay :: view

section \<open>JavaScript helpers\<close>

fun startsWith :: "string \<Rightarrow> string \<Rightarrow> bool" where
  "startsWith _ [] = True"
| "startsWith [] (_ # _) = False"
| "startsWith (x # xs) (y # ys) = (x = y \<and> startsWith xs ys)"

text \<open>
  \<open>String.prototype.includes\<close> (the plain name is an Isabelle keyword): the argument
  occurs as a contiguous substring.
\<close>

fun str_includes :: "string \<Rightarrow> string \<Rightarrow> bool" where
  "str_includes [] sub = (sub = [])"
| "str_includes (x # xs) sub = (startsWith (x # xs) sub \<or> str_includes xs sub)"

text \<open>\<open>Array.prototype.indexOf\<close>: the first position of the value, or \<open>-1\<close>.\<close>

fun indexOf :: "'a list \<Rightarrow> 'a \<Rightarrow> int" where
  "indexOf [] v = -1"
| "indexOf (x # xs) v =
     (if x = v then 0 else (let i = indexOf xs v in if i < 0 then -1 else i + 1))"

section \<open>Filtering\<close>

definition getSettingFromType :: "string \<Rightarrow> string" where
  "getSettingFromType t =
     (if str_includes t ''forward'' then ''forward''
      else if str_includes t ''inverse'' then ''inverse''
      else '''')"

text \<open>\<open>item.key_frame_ids ? item.key_frame_ids.length : 0\<close>\<close>

definition stepLengthOf :: "Sample \<Rightarrow> nat" where
  "stepLengthOf item = (case key_frame_ids item of None \<Rightarrow> 0 | Some ks \<Rightarrow> length ks)"

text \<open>The callback of \<open>this.allData.filter\<close> in \<open>filterData\<close>, with its three early returns.\<close>

definition filterCallback :: "DatasetViewer \<Rightarrow> Sample \<Rightarrow> bool" where
  "filterCallback s item =
     (if currentSetting s \<noteq> [] \<and> getSettingFromType (item_type item) \<noteq> currentSetting s
        then False
      else if currentTaskName s \<noteq> [] \<and> task_name item \<noteq> currentTaskName s
        then False
      else (case currentStepLength s of
              None \<Rightarrow> True
            | Some n \<Rightarrow> (if stepLengthOf item \<noteq> n then False else True)))"

definition filterData :: "DatasetViewer \<Rightarrow> DatasetViewer" where
  "filterData s =
     s\<lparr>filteredData := filter (filterCallback s) (allData s),
       currentIndex := 0,
       showAnswer := False\<rparr>"

text \<open>
  The callback of \<open>forEach\<close> in \<open>populateStepLengthsForCurrentFilters\<close>: the length it
  adds to the set, if it adds one.
\<close>

definition collectStepLength :: "DatasetViewer \<Rightarrow> Sample \<Rightarrow> nat option" where
  "collectStepLength s item =
     (if currentSetting s \<noteq> [] \<and> getSettingFromType (item_type item) \<noteq> currentSetting s
        then None
      else if currentTaskName s \<noteq> [] \<and> task_name item \<noteq> currentTaskName s
        then None
      else (case key_frame_ids item of None \<Rightarrow> None | Some ks \<Rightarrow> Some (length ks)))"

text \<open>
  \<open>Array.from(stepLengths).sort((a, b) => a - b)\<close> of a \<open>Set\<close>: the distinct values in
  ascending order.
\<close>

definition populateStepLengthsForCurrentFilters :: "DatasetViewer \<Rightarrow> DatasetViewer" where
  "populateStepLengthsForCurrentFilters s =
     (let stepLengths = List.map_filter (collectStepLength s) (allData s);
          avail = sort (remdups stepLengths);
          s1 = s\<lparr>availableStepLengths := avail, stepOptions := avail\<rparr>
      in if avail \<noteq> [] then
           (case currentStepLength s1 of
              None \<Rightarrow> s1\<lparr>currentStepLength := Some (hd avail)\<rparr>
            | Some n \<Rightarrow> if n \<notin> set avail then s1\<lparr>currentStepLength := Some (hd avail)\<rparr> else s1)
         else s1)"

text \<open>\<open>populateFilterOptions\<close> with \<open>updateFilterSelectors\<close>, run once at start-up.\<close>

definition updateFilterSelectors :: "DatasetViewer \<Rightarrow> DatasetViewer" where
  "updateFilterSelectors s =
     (let s1 = (if availableTaskNames s \<noteq> [] \<and> currentTaskName s = []
                then s\<lparr>currentTaskName := hd (availableTaskNames s)\<rparr> else s);
          s2 = s1\<lparr>stepOptions := availableStepLengths s1\<rparr>
      in if availableStepLengths s2 \<noteq> [] \<and> currentStepLength s2 = None
         then s2\<lparr>currentStepLength := Some (hd (availableStepLengths s2))\<rparr> else s2)"

definition populateFilterOptions :: "DatasetViewer \<Rightarrow> DatasetViewer" where
  "populateFilterOptions s =
     (let taskNames = filter (\<lambda>n. n \<noteq> []) (map task_name (allData s));
          stepLengths = List.map_filter (\<lambda>item. map_option length (key_frame_ids item)) (allData s)
      in updateFilterSelectors
           (s\<lparr>availableTaskNames := sort (remdups taskNames),
              availableStepLengths := sort (remdups stepLengths)\<rparr>))"

section \<open>Display and selector synchronisation\<close>

text \<open>
  \<open>updateUI\<close>: the no-data page for an empty list, else the sample at \<open>currentIndex\<close>;
  when that index holds no sample the display is left as it was.
\<close>

definition updateUI :: "DatasetViewer \<Rightarrow> DatasetViewer" where
  "updateUI s =
     (if length (filteredData s) = 0 then s\<lparr>dataDisplay := NoData\<rparr>
      else if 0 \<le> currentIndex s \<and> currentIndex s < int (length (filteredData s))
        then s\<lparr>dataDisplay := ShowSample (filteredData s ! nat (currentIndex s))\<rparr>
      else s)"

text \<open>
  \<open>updateFilterUI\<close>: when no option of \<open>step-select\<close> carries the current step length
  and there is an option, the first option is selected and the data filtered again.
\<close>

definition updateFilterUI :: "DatasetViewer \<Rightarrow> DatasetViewer" where
  "updateFilterUI s =
     (let hasCurrentStep =
            (case currentStepLength s of None \<Rightarrow> False | Some n \<Rightarrow> n \<in> set (stepOptions s))
      in if hasCurrentStep then s
         else if length (stepOptions s) > 0
           then filterData (s\<lparr>currentStepLength := Some (hd (stepOptions s))\<rparr>)
         else s)"

section \<open>Start-up\<close>

text \<open>
  The field values the constructor assigns, and \<open>init\<close>: \<open>loadData\<close> (which stores
  the parsed samples and filters), \<open>populateFilterOptions\<close>, \<open>filterData\<close>,
  \<open>updateFilterUI\<close>, \<open>updateUI\<close>. The options the page gives \<open>step-select\<close> before
  start-up are replaced before they are read.
\<close>

definition constructorState :: DatasetViewer where
  "constructorState =
     \<lparr>allData = [], filteredData = [], currentIndex = 0, currentSetting = ''forward'',
      currentTaskName = [], currentStepLength = None, availableTaskNames = [],
      availableStepLengths = [], showAnswer = False, stepOptions = [], dataDisplay = Loading\<rparr>"

definition init :: "Sample list \<Rightarrow> DatasetViewer" where
  "init samples =
     updateUI (updateFilterUI (filterData (populateFilterOptions
       (filterData (constructorState\<lparr>allData := samples\<rparr>)))))"

section \<open>Selector change listeners\<close>

definition onSettingChange :: "string \<Rightarrow> DatasetViewer \<Rightarrow> DatasetViewer" where
  "onSettingChange v s =
     updateUI (filterData (populateStepLengthsForCurrentFilters
       (s\<lparr>currentSetting := v, currentStepLength := None\<rparr>)))"

definition onTaskChange :: "string \<Rightarrow> DatasetViewer \<Rightarrow> DatasetViewer" where
  "onTaskChange v s =
     updateUI (filterData (populateStepLengthsForCurrentFilters
       (s\<lparr>currentTaskName := v, currentStepLength := None\<rparr>)))"

definition onStepChange :: "nat option \<Rightarrow> DatasetViewer \<Rightarrow> DatasetViewer" where
  "onStepChange v s = updateUI (filterData (s\<lparr>currentStepLength := v\<rparr>))"

section \<open>Hierarchical navigation\<close>

definition settings :: "string list" where
  "settings = ['''', ''forward'', ''inverse'']"

definition moveToNextSetting :: "DatasetViewer \<Rightarrow> bool \<times> DatasetViewer" where
  "moveToNextSetting s =
     (let currentSettingIndex = indexOf settings (currentSetting s)
      in if currentSettingIndex < int (length settings) - 1
         then (True, updateFilterUI (updateUI (filterData
                 (s\<lparr>currentSetting := settings ! nat (currentSettingIndex + 1)\<rparr>))))
         else (False, s))"

definition moveToNextTask :: "DatasetViewer \<Rightarrow> bool \<times> DatasetViewer" where
  "moveToNextTask s =
     (if currentTaskName s \<noteq> [] then
        (let currentTaskIndex = indexOf (availableTaskNames s) (currentTaskName s)
         in if currentTaskIndex < int (length (availableTaskNames s)) - 1
            then (True, updateFilterUI (updateUI (populateStepLengthsForCurrentFilters (filterData
                    (s\<lparr>currentTaskName := availableTaskNames s ! nat (currentTaskIndex + 1),
                       currentStepLength := None\<rparr>)))))
            else moveToNextSetting (s\<lparr>currentTaskName := []\<rparr>))
      else moveToNextSetting s)"

definition moveToNextCategory :: "DatasetViewer \<Rightarrow> bool \<times> DatasetViewer" where
  "moveToNextCategory s =
     (case currentStepLength s of
        Some n \<Rightarrow>
          (let currentStepIndex = indexOf (availableStepLengths s) n
           in if currentStepIndex < int (length (availableStepLengths s)) - 1
              then (True, updateFilterUI (updateUI (filterData
                      (s\<lparr>currentStepLength :=
                           Some (availableStepLengths s ! nat (currentStepIndex + 1))\<rparr>))))
              else moveToNextTask (s\<lparr>currentStepLength := None\<rparr>))
      | None \<Rightarrow> moveToNextTask s)"

definition navigateNext :: "DatasetViewer \<Rightarrow> DatasetViewer" where
  "navigateNext s =
     (if currentIndex s < int (length (filteredData s)) - 1
      then updateUI (s\<lparr>currentIndex := currentIndex s + 1, showAnswer := False\<rparr>)
      else snd (moveToNextCategory s))"

definition moveToPreviousSetting :: "DatasetViewer \<Rightarrow> bool \<times> DatasetViewer" where
  "moveToPreviousSetting s =
     (let currentSettingIndex = indexOf settings (currentSetting s)
      in if currentSettingIndex > 0
         then (let s1 = filterData (s\<lparr>currentSetting := settings ! nat (currentSettingIndex - 1)\<rparr>);
                   s2 = s1\<lparr>currentIndex := max 0 (int (length (filteredData s1)) - 1)\<rparr>
               in (True, updateFilterUI (updateUI s2)))
         else (False, s))"

definition moveToPreviousTask :: "DatasetViewer \<Rightarrow> bool \<times> DatasetViewer" where
  "moveToPreviousTask s =
     (if currentTaskName s \<noteq> [] then
        (let currentTaskIndex = indexOf (availableTaskNames s) (currentTaskName s)
         in if currentTaskIndex > 0
            then (let s1 = populateStepLengthsForCurrentFilters (filterData
                        (s\<lparr>currentTaskName := availableTaskNames s ! nat (currentTaskIndex - 1),
                           currentStepLength := None\<rparr>));
                      s2 = s1\<lparr>currentIndex := max 0 (int (length (filteredData s1)) - 1)\<rparr>
                  in (True, updateFilterUI (updateUI s2)))
            else moveToPreviousSetting (s\<lparr>currentTaskName := []\<rparr>))
      else moveToPreviousSetting s)"

definition moveToPreviousCategory :: "DatasetViewer \<Rightarrow> bool \<times> DatasetViewer" where
  "moveToPreviousCategory s =
     (case currentStepLength s of
        Some n \<Rightarrow>
          (let currentStepIndex = indexOf (availableStepLengths s) n
           in if currentStepIndex > 0
              then (let s1 = filterData (s\<lparr>currentStepLength :=
                                 Some (availableStepLengths s ! nat (currentStepIndex - 1))\<rparr>);
                        s2 = s1\<lparr>currentIndex := max 0 (int (length (filteredData s1)) - 1)\<rparr>
                    in (True, updateFilterUI (updateUI s2)))
              else moveToPreviousTask (s\<lparr>currentStepLength := None\<rparr>))
      | None \<Rightarrow> moveToPreviousTask s)"

definition navigatePrevious :: "DatasetViewer \<Rightarrow> DatasetViewer" where
  "navigatePrevious s =
     (if currentIndex s > 0
      then updateUI (s\<lparr>currentIndex := currentIndex s - 1, showAnswer := False\<rparr>)
      else snd (moveToPreviousCategory s))"

section \<open>Answer verification\<close>

text \<open>
  The value \<open>JSON.parse\<close> returns. A number is the exact rational value of the parsed
  double; \<open>JInfinity\<close> stands for the result of an overflowing literal such as
  \<open>1e999\<close>, which is a number but no integer.
\<close>

datatype json =
    JNull
  | JBool bool
  | JNum rat
  | JInfinity bool
  | JStr string
  | JArr "json list"
  | JObj "(string \<times> json) list"








section \<open>The filter of the specification\<close>

text \<open>
  The matching rule in the words of the specification. The setting a type encodes is
  found by substring match: a type that contains \<open>forward\<close> gives forward, else one
  that contains \<open>inverse\<close> gives inverse, else none; a text occurs in another when
  the other is some text, then it, then some text. A sample matches when the setting
  is none or the derived setting of the sample equals it; the task name is unset or
  equals the sample's; the step count is unset or equals the number of key frames, a
  sample without key frames counting as 0.
\<close>

definition occursIn :: "string \<Rightarrow> string \<Rightarrow> bool" where
  "occursIn sub t = (\<exists>p q. t = p @ sub @ q)"

definition derivedSetting :: "string \<Rightarrow> string" where
  "derivedSetting t =
     (if occursIn ''forward'' t then ''forward''
      else if occursIn ''inverse'' t then ''inverse''
      else [])"

definition matchesFilter :: "string \<Rightarrow> string \<Rightarrow> nat option \<Rightarrow> Sample \<Rightarrow> bool" where
  "matchesFilter setting taskName stepCount x =
     ((setting = [] \<or> derivedSetting (item_type x) = setting) \<and>
      (taskName = [] \<or> task_name x = taskName) \<and>
      (stepCount = None \<or>
       stepCount = Some (case key_frame_ids x of None \<Rightarrow> 0 | Some ks \<Rightarrow> length ks)))"

definition applyFilter :: "Sample list \<Rightarrow> string \<Rightarrow> string \<Rightarrow> nat option \<Rightarrow> Sample list" where
  "applyFilter samples setting taskName stepCount =
     filter (matchesFilter setting taskName stepCount) samples"



text \<open>
  The distinct step lengths, ascending, over the samples that match a setting and a
  task name: the specification's \<open>availableStepLengths\<close>.
\<close>

definition stepLengthsFor :: "Sample list \<Rightarrow> string \<Rightarrow> string \<Rightarrow> nat list" where
  "stepLengthsFor samples setting taskName =
     sort (remdups (List.map_filter (\<lambda>x. map_option length (key_frame_ids x))
       (filter (matchesFilter setting taskName None) samples)))"

section \<open>Example data\<close>

definition sampleA :: Sample where
  "sampleA = \<lparr>sample_id = ''a'', item_type = ''forward_world_modeling'',
               task_name = ''t1'', key_frame_ids = Some [''k1'']\<rparr>"

definition sampleB :: Sample where
  "sampleB = \<lparr>sample_id = ''b'', item_type = ''forward_world_modeling'',
               task_name = ''t2'', key_frame_ids = Some [''k1'']\<rparr>"

definition sampleC :: Sample where
  "sampleC = \<lparr>sample_id = ''c'', item_type = ''forward_world_modeling'',
               task_name = ''t2'', key_frame_ids = Some [''k1'', ''k2'']\<rparr>"

definition sampleD :: Sample where
  "sampleD = \<lparr>sample_id = ''d'', item_type = ''inverse_world_modeling'',
               task_name = ''t1'', key_frame_ids = Some [''k1'']\<rparr>"

definition exampleData :: "Sample list" where
  "exampleData = [sampleA, sampleB, sampleC, sampleD]"

text \<open>A viewer over given data with a given position; the display is derived.\<close>

definition viewerAt ::
  "Sample list \<Rightarrow> string \<Rightarrow> string \<Rightarrow> nat option \<Rightarrow> string list \<Rightarrow> nat list \<Rightarrow> int
     \<Rightarrow> DatasetViewer" where
  "viewerAt samples setting taskName stepCount names lengths i =
     updateUI \<lparr>allData = samples,
               filteredData = applyFilter samples setting taskName stepCount,
               currentIndex = i, currentSetting = setting, currentTaskName = taskName,
               currentStepLength = stepCount, availableTaskNames = names,
               availableStepLengths = lengths, showAnswer = False,
               stepOptions = lengths, dataDisplay = Loading\<rparr>"




section \<open>Positions in the hierarchy\<close>

text \<open>
  There is no further step length when none is selected or the selected one is not
  before the last available one; likewise for the task name. These are the negations
  of the two tests \<open>currentStepIndex < length - 1\<close> and \<open>currentTaskIndex < length - 1\<close>.
\<close>

definition noNextStep :: "DatasetViewer \<Rightarrow> bool" where
  "noNextStep s =
     (case currentStepLength s of
        None \<Rightarrow> True
      | Some n \<Rightarrow> \<not> indexOf (availableStepLengths s) n < int (length (availableStepLengths s)) - 1)"

definition noNextTask :: "DatasetViewer \<Rightarrow> bool" where
  "noNextTask s =
     (currentTaskName s = [] \<or>
      \<not> indexOf (availableTaskNames s) (currentTaskName s) < int (length (availableTaskNames s)) - 1)"

text \<open>
  The state invariant of the selectors: the options of \<open>step-select\<close> are the
  available step lengths, both option lists are ascending without repetition, and a
  selected step length or task name is one of the options.
\<close>

definition wellFormed :: "DatasetViewer \<Rightarrow> bool" where
  "wellFormed s =
     (stepOptions s = availableStepLengths s \<and>
      sorted (availableStepLengths s) \<and> distinct (availableStepLengths s) \<and>
      sorted (availableTaskNames s) \<and> distinct (availableTaskNames s) \<and>
      (case currentStepLength s of None \<Rightarrow> True | Some n \<Rightarrow> n \<in> set (availableStepLengths s)) \<and>
      (currentTaskName s = [] \<or> currentTaskName s \<in> set (availableTaskNames s)))"

text \<open>
  The mirror tests for the way back: no earlier step length, no earlier task name.
\<close>

definition noPreviousStep :: "DatasetViewer \<Rightarrow> bool" where
  "noPreviousStep s =
     (case currentStepLength s of
        None \<Rightarrow> True
      | Some n \<Rightarrow> \<not> indexOf (availableStepLengths s) n > 0)"

definition noPreviousTask :: "DatasetViewer \<Rightarrow> bool" where
  "noPreviousTask s =
     (currentTaskName s = [] \<or> \<not> indexOf (availableTaskNames s) (currentTaskName s) > 0)"

text \<open>\<open>Math.max(0, this.filteredData.length - 1)\<close>\<close>

definition lastIndex :: "DatasetViewer \<Rightarrow> int" where
  "lastIndex s = max 0 (int (length (filteredData s)) - 1)"


text \<open>The filter state of the specification: setting, task name, step count.\<close>

definition filterState :: "DatasetViewer \<Rightarrow> string \<times> string \<times> nat option" where
  "filterState s = (currentSetting s, currentTaskName s, currentStepLength s)"

text \<open>
  A viewer on the only sample of the last category of setting forward, with the
  step lengths of that category as options.
\<close>

definition staleBefore :: DatasetViewer where
  "staleBefore = viewerAt [sampleC, sampleD] ''forward'' [] (Some 2) [''t1'', ''t2''] [2] 0"

text \<open>A viewer on the first sample of the first category of setting forward.\<close>

definition firstOfForward :: DatasetViewer where
  "firstOfForward = viewerAt exampleData ''forward'' ''t1'' (Some 1) [''t1'', ''t2''] [1] 0"

text \<open>
  The state after start-up on the example data and the choice of setting none: the
  first task, its only step length, index 0.
\<close>

definition firstTaskOfAll :: DatasetViewer where
  "firstTaskOfAll = viewerAt exampleData [] ''t1'' (Some 1) [''t1'', ''t2''] [1] 0"

section \<open>Tours by repeated advance\<close>

text \<open>What the display shows after \<open>k\<close> calls of \<open>navigateNext\<close>.\<close>

definition displayedAt :: "DatasetViewer \<Rightarrow> nat \<Rightarrow> view" where
  "displayedAt s k = dataDisplay ((navigateNext ^^ k) s)"

text \<open>How often a sample is on display at the positions 0 to \<open>N\<close>.\<close>

definition timesShown :: "DatasetViewer \<Rightarrow> nat \<Rightarrow> Sample \<Rightarrow> nat" where
  "timesShown s N x = length (filter (\<lambda>k. displayedAt s k = ShowSample x) [0..<Suc N])"

text \<open>
  A full tour: over the first \<open>N\<close> calls every loaded sample is on display
  exactly once, and a further call changes nothing.
\<close>

definition fullTour :: "DatasetViewer \<Rightarrow> nat \<Rightarrow> bool" where
  "fullTour s N =
     (list_all (\<lambda>x. timesShown s N x = 1) (allData s) \<and>
      navigateNext ((navigateNext ^^ N) s) = (navigateNext ^^ N) s)"

text \<open>
  The first position of a setting over three forward samples: first task, first
  step length of that task, index 0.
\<close>

definition firstPosition :: "string \<Rightarrow> DatasetViewer" where
  "firstPosition setting =
     viewerAt [sampleA, sampleB, sampleC] setting ''t1'' (Some 1) [''t1'', ''t2''] [1] 0"

text \<open>
  How far a state is from the end of each level of the hierarchy: settings left,
  tasks left, step lengths left, samples left in the list.
\<close>

definition settingRank :: "DatasetViewer \<Rightarrow> nat" where
  "settingRank s = nat (2 - indexOf settings (currentSetting s))"

definition taskRank :: "DatasetViewer \<Rightarrow> nat" where
  "taskRank s =
     (if currentTaskName s = [] then 0
      else nat (int (length (availableTaskNames s))
                 - indexOf (availableTaskNames s) (currentTaskName s)))"

definition stepRank :: "DatasetViewer \<Rightarrow> nat" where
  "stepRank s =
     (case currentStepLength s of
        None \<Rightarrow> 0
      | Some n \<Rightarrow> nat (int (length (availableStepLengths s)) - indexOf (availableStepLengths s) n))"

definition indexRank :: "DatasetViewer \<Rightarrow> nat" where
  "indexRank s = nat (int (length (filteredData s)) - 1 - currentIndex s)"

text \<open>Two states with the same data, list, filter state and options.\<close>

definition sameCategory :: "DatasetViewer \<Rightarrow> DatasetViewer \<Rightarrow> bool" where
  "sameCategory s t =
     (allData t = allData s \<and> filteredData t = filteredData s \<and>
      currentSetting t = currentSetting s \<and> currentTaskName t = currentTaskName s \<and>
      currentStepLength t = currentStepLength s \<and>
      availableTaskNames t = availableTaskNames s \<and>
      availableStepLengths t = availableStepLengths s \<and> stepOptions t = stepOptions s)"

text \<open>Repeated \<open>navigateNext\<close> from \<open>s\<close> puts the sample on display at some point.\<close>

definition shown :: "DatasetViewer \<Rightarrow> Sample \<Rightarrow> bool" where
  "shown s x = (\<exists>k. displayedAt s k = ShowSample x)"

text \<open>
  \<open>e'\<close> is at the end of the task of \<open>e\<close>: same data, setting and task, on the last
  sample of its list, with no further step length.
\<close>

definition endOfTask :: "DatasetViewer \<Rightarrow> DatasetViewer \<Rightarrow> bool" where
  "endOfTask e e' =
     (wellFormed e' \<and> \<not> currentIndex e' < int (length (filteredData e')) - 1 \<and> noNextStep e' \<and>
      allData e' = allData e \<and> currentSetting e' = currentSetting e \<and>
      currentTaskName e' = currentTaskName e \<and> availableTaskNames e' = availableTaskNames e)"

text \<open>
  The first position of the current setting: a well-formed state on the first task
  name, with the step lengths of that task as options and the first of them
  selected, the list filtered accordingly, index 0 and the display showing the
  current sample (\<open>updateUI\<close> changes nothing).
\<close>

definition atFirstPosition :: "DatasetViewer \<Rightarrow> bool" where
  "atFirstPosition s =
     (wellFormed s \<and> currentIndex s = 0 \<and> updateUI s = s \<and>
      filteredData s =
        applyFilter (allData s) (currentSetting s) (currentTaskName s) (currentStepLength s) \<and>
      currentTaskName s \<noteq> [] \<and>
      list_all (\<lambda>t. currentTaskName s \<le> t) (availableTaskNames s) \<and>
      availableStepLengths s =
        stepLengthsFor (allData s) (currentSetting s) (currentTaskName s) \<and>
      currentStepLength s =
        (if availableStepLengths s = [] then None else Some (hd (availableStepLengths s))))"

section \<open>Substring test and the result of filterData\<close>

lemma startsWith_iff: "startsWith t sub \<longleftrightarrow> (\<exists>q. t = sub @ q)"
  by (induction t sub rule: startsWith.induct) auto

lemma str_includes_iff: "str_includes t sub \<longleftrightarrow> (\<exists>p q. t = p @ sub @ q)"
proof (induction t)
  case Nil
  then show ?case by auto
next
  case (Cons x xs)
  show ?case
  proof
    assume "str_includes (x # xs) sub"
    then consider "startsWith (x # xs) sub" | "str_includes xs sub" by auto
    then show "\<exists>p q. x # xs = p @ sub @ q"
    proof cases
      case 1
      then obtain q where "x # xs = sub @ q" using startsWith_iff by blast
      then have "x # xs = [] @ sub @ q" by simp
      then show ?thesis by blast
    next
      case 2
      then obtain p q where "xs = p @ sub @ q" using Cons.IH by blast
      then have "x # xs = (x # p) @ sub @ q" by simp
      then show ?thesis by blast
    qed
  next
    assume "\<exists>p q. x # xs = p @ sub @ q"
    then obtain p q where pq: "x # xs = p @ sub @ q" by blast
    show "str_includes (x # xs) sub"
    proof (cases p)
      case Nil
      with pq have "startsWith (x # xs) sub" using startsWith_iff by auto
      then show ?thesis by simp
    next
      case (Cons a p')
      with pq have "xs = p' @ sub @ q" by simp
      then have "str_includes xs sub" using Cons.IH by blast
      then show ?thesis by simp
    qed
  qed
qed

lemma derivedSetting_code: "derivedSetting t = getSettingFromType t"
  by (simp add: derivedSetting_def getSettingFromType_def occursIn_def str_includes_iff)

lemma filterCallback_matches:
  "filterCallback s x =
     matchesFilter (currentSetting s) (currentTaskName s) (currentStepLength s) x"
  by (auto simp: filterCallback_def matchesFilter_def derivedSetting_code stepLengthOf_def
      split: option.splits)

lemma filterData_applyFilter:
  "filteredData (filterData s) =
     applyFilter (allData s) (currentSetting s) (currentTaskName s) (currentStepLength s)"
  by (simp add: filterData_def applyFilter_def filterCallback_matches [abs_def])

text \<open>
  C1. For every list of samples and every filter state, \<open>filterData\<close> leaves in
  \<open>filteredData\<close> exactly the samples that satisfy the three predicates of the
  specification, in load order: the result is the filter of \<open>allData\<close> by the
  conjunction, it is a subsequence of \<open>allData\<close>, and a sample is in it if and only if
  it is loaded and matches. In \<open>matchesFilter\<close> the setting of a sample is derived
  from its type by substring match, forward before inverse.
\<close>

theorem filterData_spec:
  "filteredData (filterData s) =
     applyFilter (allData s) (currentSetting s) (currentTaskName s) (currentStepLength s)
   \<and> subseq (filteredData (filterData s)) (allData s)
   \<and> (x \<in> set (filteredData (filterData s)) \<longleftrightarrow>
        x \<in> set (allData s) \<and>
        matchesFilter (currentSetting s) (currentTaskName s) (currentStepLength s) x)"
  by (simp add: filterData_def applyFilter_def filterCallback_matches [abs_def])

theorem filterData_spec_witness:
  "filteredData (filterData
      (viewerAt [sampleA, sampleB, sampleC, sampleD] ''forward'' ''t2'' (Some 2) [] [] 0))
     = [sampleC]
   \<and> sampleC \<in> set (filteredData (filterData
      (viewerAt [sampleA, sampleB, sampleC, sampleD] ''forward'' ''t2'' (Some 2) [] [] 0)))"
  using filterData_spec
    [of "viewerAt [sampleA, sampleB, sampleC, sampleD] ''forward'' ''t2'' (Some 2) [] [] 0" sampleC]
  by (simp add: viewerAt_def updateUI_def applyFilter_def matchesFilter_def derivedSetting_code
      getSettingFromType_def sampleA_def sampleB_def sampleC_def sampleD_def)

section \<open>Outcomes of the answer verification\<close>











section \<open>Field effects of the building blocks\<close>

lemma indexOf_ge: "- 1 \<le> indexOf xs v"
  by (induction xs) (auto simp: Let_def)

lemma indexOf_lt: "indexOf xs v < int (length xs)"
  by (induction xs) (auto simp: Let_def)

lemma indexOf_neg_iff: "indexOf xs v < 0 \<longleftrightarrow> v \<notin> set xs"
  by (induction xs) (auto simp: Let_def)

lemma indexOf_nth: "v \<in> set xs \<Longrightarrow> xs ! nat (indexOf xs v) = v"
proof (induction xs)
  case Nil then show ?case by simp
next
  case (Cons x xs)
  show ?case
  proof (cases "x = v")
    case True then show ?thesis by simp
  next
    case False
    with Cons.prems have v: "v \<in> set xs" by simp
    then have "0 \<le> indexOf xs v" using indexOf_neg_iff [of xs v] by linarith
    with False v Cons.IH show ?thesis by (simp add: Let_def nat_add_distrib)
  qed
qed

lemma indexOf_nth_distinct: "distinct xs \<Longrightarrow> i < length xs \<Longrightarrow> indexOf xs (xs ! i) = int i"
proof (induction xs arbitrary: i)
  case Nil then show ?case by simp
next
  case (Cons x xs)
  show ?case
  proof (cases i)
    case 0 then show ?thesis by simp
  next
    case (Suc j)
    with Cons.prems have j: "j < length xs" and d: "distinct xs" and nx: "x \<notin> set xs" by auto
    then have "xs ! j \<noteq> x" using nth_mem by metis
    with Cons.IH [OF d j] Suc show ?thesis by (simp add: Let_def)
  qed
qed

lemma updateUI_fields [simp]:
  "allData (updateUI s) = allData s"
  "filteredData (updateUI s) = filteredData s"
  "currentIndex (updateUI s) = currentIndex s"
  "currentSetting (updateUI s) = currentSetting s"
  "currentTaskName (updateUI s) = currentTaskName s"
  "currentStepLength (updateUI s) = currentStepLength s"
  "availableTaskNames (updateUI s) = availableTaskNames s"
  "availableStepLengths (updateUI s) = availableStepLengths s"
  "showAnswer (updateUI s) = showAnswer s"
  "stepOptions (updateUI s) = stepOptions s"
  by (simp_all add: updateUI_def)

lemma filterData_fields [simp]:
  "allData (filterData s) = allData s"
  "currentIndex (filterData s) = 0"
  "currentSetting (filterData s) = currentSetting s"
  "currentTaskName (filterData s) = currentTaskName s"
  "currentStepLength (filterData s) = currentStepLength s"
  "availableTaskNames (filterData s) = availableTaskNames s"
  "availableStepLengths (filterData s) = availableStepLengths s"
  "showAnswer (filterData s) = False"
  "stepOptions (filterData s) = stepOptions s"
  "dataDisplay (filterData s) = dataDisplay s"
  by (simp_all add: filterData_def)

lemma collect_map_filter:
  "List.map_filter (collectStepLength s) xs =
     List.map_filter (\<lambda>x. map_option length (key_frame_ids x))
       (filter (matchesFilter (currentSetting s) (currentTaskName s) None) xs)"
  by (induction xs)
     (auto simp: List.map_filter_def collectStepLength_def matchesFilter_def derivedSetting_code
        split: option.splits)

lemma populate_avail:
  "availableStepLengths (populateStepLengthsForCurrentFilters s) =
     stepLengthsFor (allData s) (currentSetting s) (currentTaskName s)"
  by (simp add: populateStepLengthsForCurrentFilters_def Let_def stepLengthsFor_def
      collect_map_filter split: option.splits)

lemma populate_options:
  "stepOptions (populateStepLengthsForCurrentFilters s) =
     stepLengthsFor (allData s) (currentSetting s) (currentTaskName s)"
  by (simp add: populateStepLengthsForCurrentFilters_def Let_def stepLengthsFor_def
      collect_map_filter split: option.splits)

lemma populate_fields [simp]:
  "allData (populateStepLengthsForCurrentFilters s) = allData s"
  "filteredData (populateStepLengthsForCurrentFilters s) = filteredData s"
  "currentIndex (populateStepLengthsForCurrentFilters s) = currentIndex s"
  "currentSetting (populateStepLengthsForCurrentFilters s) = currentSetting s"
  "currentTaskName (populateStepLengthsForCurrentFilters s) = currentTaskName s"
  "availableTaskNames (populateStepLengthsForCurrentFilters s) = availableTaskNames s"
  "showAnswer (populateStepLengthsForCurrentFilters s) = showAnswer s"
  "dataDisplay (populateStepLengthsForCurrentFilters s) = dataDisplay s"
  by (simp_all add: populateStepLengthsForCurrentFilters_def Let_def split: option.splits)

lemma populate_step_None:
  "currentStepLength s = None \<Longrightarrow>
   currentStepLength (populateStepLengthsForCurrentFilters s) =
     (let avail = stepLengthsFor (allData s) (currentSetting s) (currentTaskName s)
      in if avail = [] then None else Some (hd avail))"
  by (simp add: populateStepLengthsForCurrentFilters_def Let_def stepLengthsFor_def
      collect_map_filter)

lemma updateFilterUI_same:
  "currentStepLength s = Some n \<Longrightarrow> n \<in> set (stepOptions s) \<Longrightarrow> updateFilterUI s = s"
  by (simp add: updateFilterUI_def)

lemma updateFilterUI_no_options: "stepOptions s = [] \<Longrightarrow> updateFilterUI s = s"
  by (simp add: updateFilterUI_def split: option.splits)

lemma updateFilterUI_reset:
  "currentStepLength s = None \<Longrightarrow> stepOptions s \<noteq> [] \<Longrightarrow>
   updateFilterUI s = filterData (s\<lparr>currentStepLength := Some (hd (stepOptions s))\<rparr>)"
  by (simp add: updateFilterUI_def)

lemma sorted_distinct_next:
  assumes "sorted xs" "distinct xs" "Suc i < length xs"
  shows "xs ! i < xs ! Suc i"
    and "\<And>k. k \<in> set xs \<Longrightarrow> xs ! i < k \<Longrightarrow> xs ! Suc i \<le> (k::'a::linorder)"
proof -
  have sw: "sorted_wrt (<) xs" using assms(1,2) by (simp add: strict_sorted_iff)
  show "xs ! i < xs ! Suc i" using sw assms(3) by (simp add: sorted_wrt_nth_less)
  fix k assume k: "k \<in> set xs" "xs ! i < k"
  then obtain j where j: "j < length xs" "xs ! j = k" by (auto simp: in_set_conv_nth)
  have "i < j"
  proof (rule ccontr)
    assume "\<not> i < j"
    then have "j \<le> i" by simp
    then have "xs ! j \<le> xs ! i" using assms(1,3) by (simp add: sorted_nth_mono)
    with k j show False by simp
  qed
  then have "Suc i \<le> j" by simp
  then show "xs ! Suc i \<le> k" using assms(1) j by (auto simp: sorted_nth_mono)
qed

section \<open>Moving to the next category\<close>

lemma moveToNextSetting_moved:
  assumes "indexOf settings (currentSetting s) < 2"
  defines "s' \<equiv> snd (moveToNextSetting s)"
  shows "fst (moveToNextSetting s)"
    and "currentSetting s' = settings ! nat (indexOf settings (currentSetting s) + 1)"
    and "currentTaskName s' = currentTaskName s"
    and "filteredData s' = applyFilter (allData s) (currentSetting s') (currentTaskName s') (currentStepLength s')"
    and "currentIndex s' = 0"
    and "allData s' = allData s"
    and "availableStepLengths s' = availableStepLengths s"
    and "availableTaskNames s' = availableTaskNames s"
    and "stepOptions s' = stepOptions s"
    and "currentStepLength s = None \<Longrightarrow> currentStepLength s' = (if stepOptions s = [] then None else Some (hd (stepOptions s)))"
  using assms(1) unfolding s'_def
  by (auto simp: moveToNextSetting_def Let_def settings_def updateFilterUI_def filterData_applyFilter
      split: option.splits)

lemma moveToNextSetting_stay:
  "\<not> indexOf settings (currentSetting s) < 2 \<Longrightarrow> moveToNextSetting s = (False, s)"
  by (simp add: moveToNextSetting_def Let_def settings_def)

lemma moveToNextTask_moved:
  assumes "currentTaskName s \<noteq> []"
    and "indexOf (availableTaskNames s) (currentTaskName s) < int (length (availableTaskNames s)) - 1"
  defines "s' \<equiv> snd (moveToNextTask s)"
  defines "t' \<equiv> availableTaskNames s ! nat (indexOf (availableTaskNames s) (currentTaskName s) + 1)"
  shows "fst (moveToNextTask s)"
    and "currentTaskName s' = t'"
    and "currentSetting s' = currentSetting s"
    and "availableStepLengths s' = stepLengthsFor (allData s) (currentSetting s) t'"
    and "stepOptions s' = stepLengthsFor (allData s) (currentSetting s) t'"
    and "currentStepLength s' = (if availableStepLengths s' = [] then None else Some (hd (availableStepLengths s')))"
    and "filteredData s' = applyFilter (allData s) (currentSetting s) t' None"
    and "currentIndex s' = 0"
    and "allData s' = allData s"
    and "availableTaskNames s' = availableTaskNames s"
proof -
  define s1 where "s1 = populateStepLengthsForCurrentFilters (filterData
                    (s\<lparr>currentTaskName := t', currentStepLength := None\<rparr>))"
  have av: "availableStepLengths s1 = stepLengthsFor (allData s) (currentSetting s) t'"
    and op: "stepOptions s1 = stepLengthsFor (allData s) (currentSetting s) t'"
    by (simp_all add: s1_def populate_avail populate_options)
  have st: "currentStepLength s1 = (if availableStepLengths s1 = [] then None else Some (hd (availableStepLengths s1)))"
    unfolding av by (simp add: s1_def populate_step_None Let_def)
  have ui: "updateFilterUI (updateUI s1) = updateUI s1"
  proof (cases "availableStepLengths s1 = []")
    case True
    then show ?thesis using op av by (simp add: updateFilterUI_no_options)
  next
    case False
    then have "currentStepLength (updateUI s1) = Some (hd (availableStepLengths s1))"
      and "hd (availableStepLengths s1) \<in> set (stepOptions (updateUI s1))"
      using st op av by simp_all
    then show ?thesis by (rule updateFilterUI_same)
  qed
  have res: "moveToNextTask s = (True, updateUI s1)"
    using assms(1,2) ui by (simp add: moveToNextTask_def Let_def s1_def t'_def)
  show "fst (moveToNextTask s)" by (simp add: res)
  show "currentTaskName s' = t'" by (simp add: s'_def res s1_def)
  show "currentSetting s' = currentSetting s" by (simp add: s'_def res s1_def)
  show "availableStepLengths s' = stepLengthsFor (allData s) (currentSetting s) t'"
    by (simp add: s'_def res av)
  show "stepOptions s' = stepLengthsFor (allData s) (currentSetting s) t'"
    by (simp add: s'_def res op)
  show "currentStepLength s' = (if availableStepLengths s' = [] then None else Some (hd (availableStepLengths s')))"
    using st by (simp add: s'_def res)
  show "filteredData s' = applyFilter (allData s) (currentSetting s) t' None"
    by (simp add: s'_def res s1_def filterData_applyFilter)
  show "currentIndex s' = 0" by (simp add: s'_def res s1_def)
  show "allData s' = allData s" by (simp add: s'_def res s1_def)
  show "availableTaskNames s' = availableTaskNames s" by (simp add: s'_def res s1_def)
qed

lemma clear_task_id: "currentTaskName s = [] \<Longrightarrow> s\<lparr>currentTaskName := []\<rparr> = s"
  by (cases s) simp

lemma clear_step_id: "currentStepLength s = None \<Longrightarrow> s\<lparr>currentStepLength := None\<rparr> = s"
  by (cases s) simp

lemma moveToNextTask_fall:
  "noNextTask s \<Longrightarrow> moveToNextTask s = moveToNextSetting (s\<lparr>currentTaskName := []\<rparr>)"
  by (auto simp: moveToNextTask_def noNextTask_def Let_def clear_task_id)

lemma moveToNextCategory_fall:
  "noNextStep s \<Longrightarrow> moveToNextCategory s = moveToNextTask (s\<lparr>currentStepLength := None\<rparr>)"
  by (auto simp: moveToNextCategory_def noNextStep_def Let_def clear_step_id split: option.splits)

lemma moveToNextCategory_step:
  assumes "currentStepLength s = Some n"
    and "indexOf (availableStepLengths s) n < int (length (availableStepLengths s)) - 1"
    and "stepOptions s = availableStepLengths s"
  defines "m \<equiv> availableStepLengths s ! nat (indexOf (availableStepLengths s) n + 1)"
  shows "moveToNextCategory s =
           (True, updateUI (filterData (s\<lparr>currentStepLength := Some m\<rparr>)))"
proof -
  have "- 1 \<le> indexOf (availableStepLengths s) n" by (rule indexOf_ge)
  with assms(2) have "nat (indexOf (availableStepLengths s) n + 1) < length (availableStepLengths s)"
    by linarith
  then have "m \<in> set (stepOptions s)" unfolding m_def assms(3) by (rule nth_mem)
  then have "updateFilterUI (updateUI (filterData (s\<lparr>currentStepLength := Some m\<rparr>))) =
          updateUI (filterData (s\<lparr>currentStepLength := Some m\<rparr>))"
    by (intro updateFilterUI_same [where n = m]) simp_all
  then show ?thesis using assms(1,2) by (simp add: moveToNextCategory_def Let_def m_def)
qed

section \<open>Example evaluations\<close>

lemma viewerAt_fields [simp]:
  "allData (viewerAt d st t sc nm ls i) = d"
  "filteredData (viewerAt d st t sc nm ls i) = applyFilter d st t sc"
  "currentIndex (viewerAt d st t sc nm ls i) = i"
  "currentSetting (viewerAt d st t sc nm ls i) = st"
  "currentTaskName (viewerAt d st t sc nm ls i) = t"
  "currentStepLength (viewerAt d st t sc nm ls i) = sc"
  "availableTaskNames (viewerAt d st t sc nm ls i) = nm"
  "availableStepLengths (viewerAt d st t sc nm ls i) = ls"
  "showAnswer (viewerAt d st t sc nm ls i) = False"
  "stepOptions (viewerAt d st t sc nm ls i) = ls"
  by (simp_all add: viewerAt_def)

lemmas sample_defs = exampleData_def sampleA_def sampleB_def sampleC_def sampleD_def
  applyFilter_def matchesFilter_def derivedSetting_code getSettingFromType_def

lemmas eval_defs = moveToPreviousCategory_def moveToPreviousTask_def moveToPreviousSetting_def
  moveToNextCategory_def moveToNextTask_def moveToNextSetting_def navigateNext_def
  navigatePrevious_def populateStepLengthsForCurrentFilters_def collectStepLength_def
  filterData_def filterCallback_def stepLengthOf_def updateUI_def updateFilterUI_def
  settings_def viewerAt_def List.map_filter_def
  sampleA_def sampleB_def sampleC_def sampleD_def
  applyFilter_def matchesFilter_def derivedSetting_code getSettingFromType_def

lemmas init_defs = init_def constructorState_def populateFilterOptions_def
  updateFilterSelectors_def onTaskChange_def onSettingChange_def onStepChange_def

lemma example_filters:
  "applyFilter exampleData [] ''t2'' (Some 2) = [sampleC]"
  "applyFilter exampleData [] ''t2'' None = [sampleB, sampleC]"
  by (simp_all add: sample_defs)

lemma example_sorted: "sorted [''t1'', ''t2'']" "''t1'' < ''t2''"
  by simp_all

section \<open>The order of attempts of moveToNextCategory\<close>

text \<open>
  The attempts of \<open>moveToNextCategory\<close> in a well-formed state, in their order:
  (1) a step length is selected and a later one is available: it moves and selects
  the next larger available step length, leaves setting and task alone, filters
  again and puts the index at 0;
  (2) otherwise, a task is selected and a later one is available: it moves and
  selects the next task name of the sorted list, the step lengths are recomputed
  for the setting and the new task and the first of them is selected, the index is
  0, but the list is the filter with the step length cleared, not the filter of the
  selected step length;
  (3) otherwise, the setting is not the last of none, forward, inverse: it moves to
  the next setting with the task cleared, filters again and puts the index at 0;
  (4) with no step length, no task and the setting inverse, nothing changes and the
  result is false.
\<close>

lemma moveToNextCategory_cases:
  assumes wf: "wellFormed s"
  shows
   "(currentStepLength s = Some n \<and> \<not> noNextStep s \<longrightarrow>
       (let s' = snd (moveToNextCategory s) in
          fst (moveToNextCategory s) \<and>
          (\<exists>m. currentStepLength s' = Some m \<and> m \<in> set (availableStepLengths s) \<and> n < m \<and>
               (\<forall>k \<in> set (availableStepLengths s). n < k \<longrightarrow> m \<le> k)) \<and>
          currentSetting s' = currentSetting s \<and> currentTaskName s' = currentTaskName s \<and>
          filteredData s' =
            applyFilter (allData s) (currentSetting s) (currentTaskName s) (currentStepLength s') \<and>
          currentIndex s' = 0)) \<and>
    (noNextStep s \<and> \<not> noNextTask s \<longrightarrow>
       (let s' = snd (moveToNextCategory s) in
          fst (moveToNextCategory s) \<and>
          currentTaskName s' \<in> set (availableTaskNames s) \<and>
          currentTaskName s < currentTaskName s' \<and>
          (\<forall>k \<in> set (availableTaskNames s). currentTaskName s < k \<longrightarrow> currentTaskName s' \<le> k) \<and>
          currentSetting s' = currentSetting s \<and>
          availableStepLengths s' =
            stepLengthsFor (allData s) (currentSetting s) (currentTaskName s') \<and>
          currentStepLength s' =
            (if availableStepLengths s' = [] then None else Some (hd (availableStepLengths s'))) \<and>
          filteredData s' = applyFilter (allData s) (currentSetting s) (currentTaskName s') None \<and>
          currentIndex s' = 0)) \<and>
    (noNextStep s \<and> noNextTask s \<and> indexOf settings (currentSetting s) < 2 \<longrightarrow>
       (let s' = snd (moveToNextCategory s) in
          fst (moveToNextCategory s) \<and>
          currentSetting s' = settings ! nat (indexOf settings (currentSetting s) + 1) \<and>
          currentTaskName s' = [] \<and>
          filteredData s' =
            applyFilter (allData s) (currentSetting s') [] (currentStepLength s') \<and>
          currentIndex s' = 0)) \<and>
    (currentStepLength s = None \<and> currentTaskName s = [] \<and> currentSetting s = ''inverse'' \<longrightarrow>
       moveToNextCategory s = (False, s))"
proof (intro conjI impI)
  assume h: "currentStepLength s = Some n \<and> \<not> noNextStep s"
  let ?av = "availableStepLengths s"
  let ?i = "indexOf ?av n"
  from h have st: "currentStepLength s = Some n" and lt: "?i < int (length ?av) - 1"
    by (auto simp: noNextStep_def)
  from wf st have mem: "n \<in> set ?av" and so: "sorted ?av" and di: "distinct ?av"
    and op: "stepOptions s = ?av"
    by (auto simp: wellFormed_def)
  from mem have i0: "0 \<le> ?i" using indexOf_neg_iff [of ?av n] by linarith
  define j where "j = nat ?i"
  have j: "Suc j < length ?av" "nat (?i + 1) = Suc j" using i0 lt by (simp_all add: j_def)
  have nj: "?av ! j = n" using indexOf_nth [OF mem] by (simp add: j_def)
  define m where "m = ?av ! Suc j"
  have res: "moveToNextCategory s = (True, updateUI (filterData (s\<lparr>currentStepLength := Some m\<rparr>)))"
    using moveToNextCategory_step [OF st lt op] by (simp add: m_def j)
  have m1: "m \<in> set ?av" using j(1) by (simp add: m_def)
  have m2: "n < m" using sorted_distinct_next(1) [OF so di j(1)] by (simp add: nj m_def)
  have m3: "\<forall>k \<in> set ?av. n < k \<longrightarrow> m \<le> k"
    using sorted_distinct_next(2) [OF so di j(1)] by (simp add: nj m_def)
  show "let s' = snd (moveToNextCategory s) in
          fst (moveToNextCategory s) \<and>
          (\<exists>m. currentStepLength s' = Some m \<and> m \<in> set (availableStepLengths s) \<and> n < m \<and>
               (\<forall>k \<in> set (availableStepLengths s). n < k \<longrightarrow> m \<le> k)) \<and>
          currentSetting s' = currentSetting s \<and> currentTaskName s' = currentTaskName s \<and>
          filteredData s' =
            applyFilter (allData s) (currentSetting s) (currentTaskName s) (currentStepLength s') \<and>
          currentIndex s' = 0"
    using m1 m2 m3 by (simp add: res Let_def filterData_applyFilter)
next
  assume h: "noNextStep s \<and> \<not> noNextTask s"
  let ?s0 = "s\<lparr>currentStepLength := None\<rparr>"
  let ?nm = "availableTaskNames s"
  let ?i = "indexOf ?nm (currentTaskName s)"
  from h have ne: "currentTaskName s \<noteq> []" and lt: "?i < int (length ?nm) - 1"
    by (auto simp: noNextTask_def)
  from h have eq: "moveToNextCategory s = moveToNextTask ?s0"
    by (simp add: moveToNextCategory_fall)
  from wf ne have mem: "currentTaskName s \<in> set ?nm" and so: "sorted ?nm" and di: "distinct ?nm"
    by (auto simp: wellFormed_def)
  from mem have i0: "0 \<le> ?i" using indexOf_neg_iff [of ?nm "currentTaskName s"] by linarith
  define j where "j = nat ?i"
  have j: "Suc j < length ?nm" "nat (?i + 1) = Suc j" using i0 lt by (simp_all add: j_def)
  have nj: "?nm ! j = currentTaskName s" using indexOf_nth [OF mem] by (simp add: j_def)
  have ne0: "currentTaskName ?s0 \<noteq> []" using ne by simp
  have lt0: "indexOf (availableTaskNames ?s0) (currentTaskName ?s0)
               < int (length (availableTaskNames ?s0)) - 1"
    using lt by simp
  note mv = moveToNextTask_moved [OF ne0 lt0]
  have t': "currentTaskName (snd (moveToNextTask ?s0)) = ?nm ! Suc j"
    using mv(2) by (simp add: j)
  have m1: "?nm ! Suc j \<in> set ?nm" using j(1) by simp
  have m2: "currentTaskName s < ?nm ! Suc j"
    using sorted_distinct_next(1) [OF so di j(1)] by (simp add: nj)
  have m3: "\<forall>k \<in> set ?nm. currentTaskName s < k \<longrightarrow> ?nm ! Suc j \<le> k"
    using sorted_distinct_next(2) [OF so di j(1)] by (simp add: nj)
  show "let s' = snd (moveToNextCategory s) in
          fst (moveToNextCategory s) \<and>
          currentTaskName s' \<in> set (availableTaskNames s) \<and>
          currentTaskName s < currentTaskName s' \<and>
          (\<forall>k \<in> set (availableTaskNames s). currentTaskName s < k \<longrightarrow> currentTaskName s' \<le> k) \<and>
          currentSetting s' = currentSetting s \<and>
          availableStepLengths s' =
            stepLengthsFor (allData s) (currentSetting s) (currentTaskName s') \<and>
          currentStepLength s' =
            (if availableStepLengths s' = [] then None else Some (hd (availableStepLengths s'))) \<and>
          filteredData s' = applyFilter (allData s) (currentSetting s) (currentTaskName s') None \<and>
          currentIndex s' = 0"
    unfolding Let_def eq t'
    using mv(1) mv(3) mv(4) mv(6) mv(7) mv(8) m1 m2 m3 by (simp add: j)
next
  assume h: "noNextStep s \<and> noNextTask s \<and> indexOf settings (currentSetting s) < 2"
  let ?s0 = "s\<lparr>currentStepLength := None, currentTaskName := []\<rparr>"
  from h have "noNextTask (s\<lparr>currentStepLength := None\<rparr>)" by (simp add: noNextTask_def)
  with h have eq: "moveToNextCategory s = moveToNextSetting ?s0"
    by (simp add: moveToNextCategory_fall moveToNextTask_fall)
  from h have lt: "indexOf settings (currentSetting ?s0) < 2" by simp
  note mv = moveToNextSetting_moved [OF lt]
  show "let s' = snd (moveToNextCategory s) in
          fst (moveToNextCategory s) \<and>
          currentSetting s' = settings ! nat (indexOf settings (currentSetting s) + 1) \<and>
          currentTaskName s' = [] \<and>
          filteredData s' =
            applyFilter (allData s) (currentSetting s') [] (currentStepLength s') \<and>
          currentIndex s' = 0"
    unfolding Let_def eq
    using mv(1) mv(2) mv(3) mv(4) mv(5) by simp
next
  assume h: "currentStepLength s = None \<and> currentTaskName s = [] \<and> currentSetting s = ''inverse''"
  then show "moveToNextCategory s = (False, s)"
    by (simp add: moveToNextCategory_def moveToNextTask_def moveToNextSetting_def settings_def)
qed

text \<open>
  C3 at a failing input. \<open>firstTaskOfAll\<close> is the state after start-up and the choice
  of setting none: task t1, step length 1, list [a, d], no later step length.
  \<open>moveToNextCategory\<close> moves to task t2. \<open>moveToNextTask\<close> clears the step length,
  filters, and only then calls \<open>populateStepLengthsForCurrentFilters\<close>, which
  recomputes the step lengths [1, 2] and selects 1 without filtering again: the
  state ends with the selection (none, t2, 1) and the list [b, c], which is the list
  of no step length, where the filter of the selection is [b]. The task selector
  on the same state recomputes first and filters last, and ends with [b].
\<close>

theorem moveToNextCategory_task_list:
  "onSettingChange [] (init exampleData) = firstTaskOfAll \<and>
   wellFormed firstTaskOfAll \<and> noNextStep firstTaskOfAll \<and>
   filteredData firstTaskOfAll = [sampleA, sampleD] \<and>
   fst (moveToNextCategory firstTaskOfAll) \<and>
   currentSetting (snd (moveToNextCategory firstTaskOfAll)) = [] \<and>
   currentTaskName (snd (moveToNextCategory firstTaskOfAll)) = ''t2'' \<and>
   currentStepLength (snd (moveToNextCategory firstTaskOfAll)) = Some 1 \<and>
   availableStepLengths (snd (moveToNextCategory firstTaskOfAll)) = [1, 2] \<and>
   currentIndex (snd (moveToNextCategory firstTaskOfAll)) = 0 \<and>
   filteredData (snd (moveToNextCategory firstTaskOfAll)) = [sampleB, sampleC] \<and>
   applyFilter exampleData [] ''t2'' (Some 1) = [sampleB] \<and>
   currentStepLength (onTaskChange ''t2'' firstTaskOfAll) = Some 1 \<and>
   filteredData (onTaskChange ''t2'' firstTaskOfAll) = [sampleB]"
proof -
  have r: "moveToNextCategory firstTaskOfAll =
     (True, \<lparr>allData = exampleData, filteredData = [sampleB, sampleC], currentIndex = 0,
             currentSetting = [], currentTaskName = ''t2'', currentStepLength = Some 1,
             availableTaskNames = [''t1'', ''t2''], availableStepLengths = [1, 2],
             showAnswer = False, stepOptions = [1, 2], dataDisplay = ShowSample sampleB\<rparr>)"
    by (simp add: firstTaskOfAll_def exampleData_def eval_defs Let_def)
  have l: "onTaskChange ''t2'' firstTaskOfAll =
     \<lparr>allData = exampleData, filteredData = [sampleB], currentIndex = 0,
      currentSetting = [], currentTaskName = ''t2'', currentStepLength = Some 1,
      availableTaskNames = [''t1'', ''t2''], availableStepLengths = [1, 2],
      showAnswer = False, stepOptions = [1, 2], dataDisplay = ShowSample sampleB\<rparr>"
    by (simp add: firstTaskOfAll_def exampleData_def init_defs eval_defs Let_def)
  have i: "onSettingChange [] (init exampleData) = firstTaskOfAll"
    by (simp add: firstTaskOfAll_def exampleData_def init_defs eval_defs Let_def)
  have w: "wellFormed firstTaskOfAll" "noNextStep firstTaskOfAll"
    by (simp_all add: firstTaskOfAll_def wellFormed_def noNextStep_def)
  have f: "applyFilter exampleData [] ''t2'' (Some 1) = [sampleB]"
    "filteredData firstTaskOfAll = [sampleA, sampleD]"
    by (simp_all add: firstTaskOfAll_def sample_defs)
  show ?thesis unfolding r l using i w f by simp
qed

section \<open>Moving to the previous category\<close>

lemma updateFilterUI_cases:
  "updateFilterUI s = s \<or>
   updateFilterUI s = filterData (s\<lparr>currentStepLength := Some (hd (stepOptions s))\<rparr>)"
  by (simp add: updateFilterUI_def Let_def)


lemma moveToPreviousSetting_stay:
  "\<not> indexOf settings (currentSetting s) > 0 \<Longrightarrow> moveToPreviousSetting s = (False, s)"
  by (simp add: moveToPreviousSetting_def Let_def)

lemma moveToPreviousTask_moved:
  assumes "currentTaskName s \<noteq> []"
    and "indexOf (availableTaskNames s) (currentTaskName s) > 0"
  defines "s' \<equiv> snd (moveToPreviousTask s)"
  defines "t' \<equiv> availableTaskNames s ! nat (indexOf (availableTaskNames s) (currentTaskName s) - 1)"
  shows "fst (moveToPreviousTask s)"
    and "currentTaskName s' = t'"
    and "currentSetting s' = currentSetting s"
    and "availableStepLengths s' = stepLengthsFor (allData s) (currentSetting s) t'"
    and "stepOptions s' = stepLengthsFor (allData s) (currentSetting s) t'"
    and "currentStepLength s' = (if availableStepLengths s' = [] then None else Some (hd (availableStepLengths s')))"
    and "filteredData s' = applyFilter (allData s) (currentSetting s) t' None"
    and "currentIndex s' = max 0 (int (length (filteredData s')) - 1)"
    and "allData s' = allData s"
    and "availableTaskNames s' = availableTaskNames s"
proof -
  define s1 where "s1 = populateStepLengthsForCurrentFilters (filterData
                    (s\<lparr>currentTaskName := t', currentStepLength := None\<rparr>))"
  define s2 where "s2 = s1\<lparr>currentIndex := max 0 (int (length (filteredData s1)) - 1)\<rparr>"
  have av: "availableStepLengths s2 = stepLengthsFor (allData s) (currentSetting s) t'"
    and op: "stepOptions s2 = stepLengthsFor (allData s) (currentSetting s) t'"
    by (simp_all add: s2_def s1_def populate_avail populate_options)
  have st: "currentStepLength s2 = (if availableStepLengths s2 = [] then None else Some (hd (availableStepLengths s2)))"
    unfolding av by (simp add: s2_def s1_def populate_step_None Let_def)
  have ui: "updateFilterUI (updateUI s2) = updateUI s2"
  proof (cases "availableStepLengths s2 = []")
    case True
    then show ?thesis using op av by (simp add: updateFilterUI_no_options)
  next
    case False
    then have "currentStepLength (updateUI s2) = Some (hd (availableStepLengths s2))"
      and "hd (availableStepLengths s2) \<in> set (stepOptions (updateUI s2))"
      using st op av by simp_all
    then show ?thesis by (rule updateFilterUI_same)
  qed
  have res: "moveToPreviousTask s = (True, updateUI s2)"
    using assms(1,2) ui by (simp add: moveToPreviousTask_def Let_def s2_def s1_def t'_def)
  show "fst (moveToPreviousTask s)" by (simp add: res)
  show "currentTaskName s' = t'" by (simp add: s'_def res s2_def s1_def)
  show "currentSetting s' = currentSetting s" by (simp add: s'_def res s2_def s1_def)
  show "availableStepLengths s' = stepLengthsFor (allData s) (currentSetting s) t'"
    by (simp add: s'_def res av)
  show "stepOptions s' = stepLengthsFor (allData s) (currentSetting s) t'"
    by (simp add: s'_def res op)
  show "currentStepLength s' = (if availableStepLengths s' = [] then None else Some (hd (availableStepLengths s')))"
    using st by (simp add: s'_def res)
  show "filteredData s' = applyFilter (allData s) (currentSetting s) t' None"
    by (simp add: s'_def res s2_def s1_def filterData_applyFilter)
  show "currentIndex s' = max 0 (int (length (filteredData s')) - 1)"
    by (simp add: s'_def res s2_def)
  show "allData s' = allData s" by (simp add: s'_def res s2_def s1_def)
  show "availableTaskNames s' = availableTaskNames s" by (simp add: s'_def res s2_def s1_def)
qed

lemma moveToPreviousTask_fall:
  "noPreviousTask s \<Longrightarrow> moveToPreviousTask s = moveToPreviousSetting (s\<lparr>currentTaskName := []\<rparr>)"
  by (auto simp: moveToPreviousTask_def noPreviousTask_def Let_def clear_task_id)

lemma moveToPreviousCategory_fall:
  "noPreviousStep s \<Longrightarrow> moveToPreviousCategory s = moveToPreviousTask (s\<lparr>currentStepLength := None\<rparr>)"
  by (auto simp: moveToPreviousCategory_def noPreviousStep_def Let_def clear_step_id split: option.splits)

lemma moveToPreviousCategory_step:
  assumes "currentStepLength s = Some n"
    and "indexOf (availableStepLengths s) n > 0"
    and "stepOptions s = availableStepLengths s"
  defines "m \<equiv> availableStepLengths s ! nat (indexOf (availableStepLengths s) n - 1)"
  defines "s1 \<equiv> filterData (s\<lparr>currentStepLength := Some m\<rparr>)"
  shows "moveToPreviousCategory s =
           (True, updateUI (s1\<lparr>currentIndex := max 0 (int (length (filteredData s1)) - 1)\<rparr>))"
proof -
  have "indexOf (availableStepLengths s) n < int (length (availableStepLengths s))"
    by (rule indexOf_lt)
  with assms(2) have "nat (indexOf (availableStepLengths s) n - 1) < length (availableStepLengths s)"
    by linarith
  then have "m \<in> set (stepOptions s)" unfolding m_def assms(3) by (rule nth_mem)
  then have "updateFilterUI (updateUI (s1\<lparr>currentIndex := max 0 (int (length (filteredData s1)) - 1)\<rparr>)) =
          updateUI (s1\<lparr>currentIndex := max 0 (int (length (filteredData s1)) - 1)\<rparr>)"
    by (intro updateFilterUI_same [where n = m]) (simp_all add: s1_def)
  then show ?thesis using assms(1,2) by (simp add: moveToPreviousCategory_def Let_def m_def s1_def)
qed



lemma example_filters_back:
  "applyFilter exampleData [] [] (Some 1) = [sampleA, sampleB, sampleD]"
  "applyFilter exampleData [] [] (Some (Suc 0)) = [sampleA, sampleB, sampleD]"
  "applyFilter exampleData ''forward'' ''t1'' None = [sampleA]"
  by (simp_all add: sample_defs)



section \<open>Stepping inside a category\<close>

text \<open>
  C6. In every state whose index is in the range of the filtered list and is neither 0
  nor the last index, \<open>navigateNext\<close> followed by \<open>navigatePrevious\<close> gives back the
  original pair of index and filter state; the filtered list is unchanged and the
  whole state is the original one with the answer hidden and the display refreshed.
\<close>

theorem advance_retreat_inverse:
  assumes "0 \<le> currentIndex s" and "currentIndex s \<le> int (length (filteredData s)) - 1"
    and "currentIndex s \<noteq> 0" and "currentIndex s \<noteq> int (length (filteredData s)) - 1"
  shows "(currentIndex (navigatePrevious (navigateNext s)), filterState (navigatePrevious (navigateNext s)))
           = (currentIndex s, filterState s)
       \<and> filteredData (navigatePrevious (navigateNext s)) = filteredData s
       \<and> navigatePrevious (navigateNext s) = updateUI (s\<lparr>showAnswer := False\<rparr>)"
proof -
  from assms have lt: "currentIndex s < int (length (filteredData s)) - 1" and gt: "0 < currentIndex s"
    by simp_all
  define s1 where "s1 = updateUI (s\<lparr>currentIndex := currentIndex s + 1, showAnswer := False\<rparr>)"
  have n: "navigateNext s = s1" using lt by (simp add: navigateNext_def s1_def)
  have i1: "currentIndex s1 = currentIndex s + 1" by (simp add: s1_def)
  have p: "navigatePrevious s1 = updateUI (s1\<lparr>currentIndex := currentIndex s1 - 1, showAnswer := False\<rparr>)"
    using gt i1 by (simp add: navigatePrevious_def)
  have e: "updateUI (s1\<lparr>currentIndex := currentIndex s1 - 1, showAnswer := False\<rparr>)
             = updateUI (s\<lparr>showAnswer := False\<rparr>)"
    using lt gt by (simp add: s1_def updateUI_def)
  show ?thesis unfolding n p e by (simp add: filterState_def)
qed

theorem advance_retreat_inverse_witness:
  "currentIndex (navigatePrevious (navigateNext
      (viewerAt exampleData [] [] (Some 1) [''t1'', ''t2''] [1, 2] 1))) = 1 \<and>
   filterState (navigatePrevious (navigateNext
      (viewerAt exampleData [] [] (Some 1) [''t1'', ''t2''] [1, 2] 1))) = ([], [], Some 1)"
  using advance_retreat_inverse [of "viewerAt exampleData [] [] (Some 1) [''t1'', ''t2''] [1, 2] 1"]
  by (simp add: example_filters_back filterState_def)

section \<open>The failed advance at the global end\<close>

text \<open>
  C9. When \<open>navigateNext\<close> is called with the index not before the last item, the
  setting inverse, and each of step length and task name either unset or not before
  its last option, \<open>moveToNextCategory\<close> returns false, yet the state changes: step
  length and task name are cleared. Nothing is filtered again, so the filtered list,
  the index and the display stay as they were. The call is a no-op only when both
  were unset already.
\<close>

theorem failed_advance_clears:
  assumes "\<not> currentIndex s < int (length (filteredData s)) - 1"
    and "currentSetting s = ''inverse''"
    and "noNextStep s" and "noNextTask s"
  shows "moveToNextCategory s = (False, s\<lparr>currentStepLength := None, currentTaskName := []\<rparr>)
       \<and> navigateNext s = s\<lparr>currentStepLength := None, currentTaskName := []\<rparr>
       \<and> filteredData (navigateNext s) = filteredData s
       \<and> currentIndex (navigateNext s) = currentIndex s
       \<and> dataDisplay (navigateNext s) = dataDisplay s
       \<and> (navigateNext s = s) = (currentStepLength s = None \<and> currentTaskName s = [])"
proof -
  let ?s0 = "s\<lparr>currentStepLength := None, currentTaskName := []\<rparr>"
  from assms(4) have "noNextTask (s\<lparr>currentStepLength := None\<rparr>)" by (simp add: noNextTask_def)
  with assms(3) have eq: "moveToNextCategory s = moveToNextSetting ?s0"
    by (simp add: moveToNextCategory_fall moveToNextTask_fall)
  have "\<not> indexOf settings (currentSetting ?s0) < 2" using assms(2) by (simp add: settings_def)
  then have st: "moveToNextSetting ?s0 = (False, ?s0)" by (rule moveToNextSetting_stay)
  have nn: "navigateNext s = ?s0" using assms(1) by (simp add: navigateNext_def eq st)
  have "(?s0 = s) = (currentStepLength s = None \<and> currentTaskName s = [])"
  proof
    assume "?s0 = s"
    then have "currentStepLength ?s0 = currentStepLength s" "currentTaskName ?s0 = currentTaskName s"
      by simp_all
    then show "currentStepLength s = None \<and> currentTaskName s = []" by simp
  next
    assume "currentStepLength s = None \<and> currentTaskName s = []"
    then show "?s0 = s" by (cases s) simp
  qed
  then show ?thesis unfolding nn eq st by simp
qed

theorem failed_advance_clears_witness:
  "navigateNext (viewerAt exampleData ''inverse'' ''t2'' (Some 2) [''t1'', ''t2''] [1, 2] 0)
     = (viewerAt exampleData ''inverse'' ''t2'' (Some 2) [''t1'', ''t2''] [1, 2] 0)
         \<lparr>currentStepLength := None, currentTaskName := []\<rparr> \<and>
   navigateNext (viewerAt exampleData ''inverse'' ''t2'' (Some 2) [''t1'', ''t2''] [1, 2] 0)
     \<noteq> viewerAt exampleData ''inverse'' ''t2'' (Some 2) [''t1'', ''t2''] [1, 2] 0"
proof -
  let ?w = "viewerAt exampleData ''inverse'' ''t2'' (Some 2) [''t1'', ''t2''] [1, 2] 0"
  have f: "applyFilter exampleData ''inverse'' ''t2'' (Some 2) = []"
    by (simp add: sample_defs)
  have p1: "\<not> currentIndex ?w < int (length (filteredData ?w)) - 1" by (simp add: f)
  have p2: "currentSetting ?w = ''inverse''" by simp
  have p3: "noNextStep ?w" by (simp add: noNextStep_def)
  have p4: "noNextTask ?w" by (simp add: noNextTask_def)
  note r = failed_advance_clears [OF p1 p2 p3 p4]
  from r have a: "navigateNext ?w = ?w\<lparr>currentStepLength := None, currentTaskName := []\<rparr>"
    by blast
  from r have "(navigateNext ?w = ?w) = (currentStepLength ?w = None \<and> currentTaskName ?w = [])"
    by blast
  then have b: "navigateNext ?w \<noteq> ?w" by simp
  from a b show ?thesis by blast
qed

section \<open>Selector changes\<close>

text \<open>
  C7. A change of the setting selector or of the task selector to \<open>v\<close> clears the
  step length, then recomputes the available step lengths for the new pair of
  setting and task, then filters, which puts the index at 0. In the resulting state
  the available step lengths are those of the new pair; the step length does not
  depend on the one selected before (it is the first recomputed length, or unset
  when there is none); the list is the filter of all samples by the resulting
  filter state; and the index is 0.
\<close>

theorem selector_change_resets:
  "(let s' = onSettingChange v s;
        avail = stepLengthsFor (allData s) v (currentTaskName s)
    in updateUI (filterData (populateStepLengthsForCurrentFilters
              (s\<lparr>currentSetting := v, currentStepLength := None\<rparr>))) = s' \<and>
       currentSetting s' = v \<and> currentTaskName s' = currentTaskName s \<and>
       availableStepLengths s' = avail \<and>
       currentStepLength s' = (if avail = [] then None else Some (hd avail)) \<and>
       filteredData s' = applyFilter (allData s) v (currentTaskName s) (currentStepLength s') \<and>
       currentIndex s' = 0) \<and>
   (let s' = onTaskChange v s;
        avail = stepLengthsFor (allData s) (currentSetting s) v
    in updateUI (filterData (populateStepLengthsForCurrentFilters
              (s\<lparr>currentTaskName := v, currentStepLength := None\<rparr>))) = s' \<and>
       currentSetting s' = currentSetting s \<and> currentTaskName s' = v \<and>
       availableStepLengths s' = avail \<and>
       currentStepLength s' = (if avail = [] then None else Some (hd avail)) \<and>
       filteredData s' = applyFilter (allData s) (currentSetting s) v (currentStepLength s') \<and>
       currentIndex s' = 0)"
  by (simp add: onSettingChange_def onTaskChange_def Let_def populate_avail populate_step_None
      filterData_applyFilter)

theorem selector_change_resets_witness:
  "currentStepLength (onTaskChange ''t1''
      (viewerAt exampleData [] ''t2'' (Some 2) [''t1'', ''t2''] [1, 2] 1)) = Some 1 \<and>
   availableStepLengths (onTaskChange ''t1''
      (viewerAt exampleData [] ''t2'' (Some 2) [''t1'', ''t2''] [1, 2] 1)) = [1] \<and>
   filteredData (onTaskChange ''t1''
      (viewerAt exampleData [] ''t2'' (Some 2) [''t1'', ''t2''] [1, 2] 1)) = [sampleA, sampleD] \<and>
   currentIndex (onTaskChange ''t1''
      (viewerAt exampleData [] ''t2'' (Some 2) [''t1'', ''t2''] [1, 2] 1)) = 0 \<and>
   currentSetting (onSettingChange ''inverse''
      (viewerAt exampleData [] ''t2'' (Some 2) [''t1'', ''t2''] [1, 2] 1)) = ''inverse'' \<and>
   currentStepLength (onSettingChange ''inverse''
      (viewerAt exampleData [] ''t2'' (Some 2) [''t1'', ''t2''] [1, 2] 1)) = None \<and>
   filteredData (onSettingChange ''inverse''
      (viewerAt exampleData [] ''t2'' (Some 2) [''t1'', ''t2''] [1, 2] 1)) = []"
proof -
  have a: "stepLengthsFor exampleData [] ''t1'' = [1]"
    "stepLengthsFor exampleData ''inverse'' ''t2'' = []"
    by (simp_all add: stepLengthsFor_def List.map_filter_def sample_defs)
  have b: "applyFilter exampleData [] ''t1'' (Some (Suc 0)) = [sampleA, sampleD]"
    "applyFilter exampleData ''inverse'' ''t2'' None = []"
    by (simp_all add: sample_defs)
  show ?thesis
    using selector_change_resets [of "''t1''" "viewerAt exampleData [] ''t2'' (Some 2) [''t1'', ''t2''] [1, 2] 1", THEN conjunct2]
      selector_change_resets [of "''inverse''" "viewerAt exampleData [] ''t2'' (Some 2) [''t1'', ''t2''] [1, 2] 1", THEN conjunct1]
    by (simp add: Let_def a b)
qed

section \<open>The step length after a move to another setting\<close>

text \<open>
  C8 at a failing input. \<open>staleBefore\<close> is well formed and its options are the step
  lengths of its setting and task. \<open>navigateNext\<close> moves to setting inverse without
  recomputing the options, and \<open>updateFilterUI\<close> selects the first stale option, 2.
  No inverse sample has 2 key frames (their step lengths are [1]), so the selected
  step length is not one observed for the current setting and task, and the list is
  empty although the setting has a sample.
\<close>

theorem navigateNext_stale_step:
  "wellFormed staleBefore \<and>
   filteredData staleBefore = [sampleC] \<and>
   availableStepLengths staleBefore =
     stepLengthsFor (allData staleBefore) (currentSetting staleBefore) (currentTaskName staleBefore) \<and>
   currentSetting (navigateNext staleBefore) = ''inverse'' \<and>
   currentTaskName (navigateNext staleBefore) = [] \<and>
   currentStepLength (navigateNext staleBefore) = Some 2 \<and>
   stepLengthsFor (allData (navigateNext staleBefore)) ''inverse'' [] = [1] \<and>
   filteredData (navigateNext staleBefore) = [] \<and>
   applyFilter (allData (navigateNext staleBefore)) ''inverse'' [] None = [sampleD]"
proof -
  have r: "navigateNext staleBefore =
     \<lparr>allData = [sampleC, sampleD], filteredData = [], currentIndex = 0,
      currentSetting = ''inverse'', currentTaskName = [], currentStepLength = Some 2,
      availableTaskNames = [''t1'', ''t2''], availableStepLengths = [2],
      showAnswer = False, stepOptions = [2], dataDisplay = ShowSample sampleD\<rparr>"
    by (simp add: staleBefore_def eval_defs Let_def)
  have w: "wellFormed staleBefore"
    by (simp add: staleBefore_def wellFormed_def)
  have f: "filteredData staleBefore = [sampleC]"
    "stepLengthsFor [sampleC, sampleD] ''forward'' [] = [2]"
    "stepLengthsFor [sampleC, sampleD] ''inverse'' [] = [1]"
    "applyFilter [sampleC, sampleD] ''inverse'' [] None = [sampleD]"
    by (simp_all add: staleBefore_def stepLengthsFor_def List.map_filter_def sample_defs)
  show ?thesis unfolding r using w f by (simp add: staleBefore_def)
qed

section \<open>The index after a move to the previous setting\<close>

text \<open>
  C10 at a failing input. From the first sample of setting forward, \<open>navigatePrevious\<close>
  moves to setting none. \<open>moveToPreviousSetting\<close> assigns \<open>max(0, length - 1)\<close> and
  shows that sample, but \<open>updateFilterUI\<close> then selects the first step option and
  filters again, which puts the index back to 0: the list has three samples, the
  index is 0 and not 2, and the display still shows the last sample of the list
  before the second filter.
\<close>

theorem navigatePrevious_setting_index:
  "wellFormed firstOfForward \<and>
   filteredData firstOfForward = [sampleA] \<and> currentIndex firstOfForward = 0 \<and>
   currentSetting (navigatePrevious firstOfForward) = [] \<and>
   filteredData (navigatePrevious firstOfForward) = [sampleA, sampleB, sampleD] \<and>
   lastIndex (navigatePrevious firstOfForward) = 2 \<and>
   currentIndex (navigatePrevious firstOfForward) = 0 \<and>
   dataDisplay (navigatePrevious firstOfForward) = ShowSample sampleD"
proof -
  have r: "navigatePrevious firstOfForward =
     \<lparr>allData = exampleData, filteredData = [sampleA, sampleB, sampleD], currentIndex = 0,
      currentSetting = [], currentTaskName = [], currentStepLength = Some 1,
      availableTaskNames = [''t1'', ''t2''], availableStepLengths = [1],
      showAnswer = False, stepOptions = [1], dataDisplay = ShowSample sampleD\<rparr>"
    by (simp add: firstOfForward_def exampleData_def eval_defs Let_def)
  have w: "wellFormed firstOfForward"
    by (simp add: firstOfForward_def wellFormed_def)
  have f: "filteredData firstOfForward = [sampleA]" "currentIndex firstOfForward = 0"
    by (simp_all add: firstOfForward_def sample_defs)
  show ?thesis unfolding r using w f by (simp add: lastIndex_def)
qed

section \<open>Repeated advance through the hierarchy\<close>

lemma shown_twice:
  assumes "i < j" "j \<le> N" "displayedAt s i = ShowSample x" "displayedAt s j = ShowSample x"
  shows "2 \<le> timesShown s N x"
proof -
  let ?P = "\<lambda>k. displayedAt s k = ShowSample x"
  have "timesShown s N x = card ({k. ?P k} \<inter> set [0..<Suc N])"
    unfolding timesShown_def by (rule distinct_length_filter) simp
  moreover have "{i, j} \<subseteq> {k. ?P k} \<inter> set [0..<Suc N]" using assms by auto
  then have "card {i, j} \<le> card ({k. ?P k} \<inter> set [0..<Suc N])" by (intro card_mono) auto
  moreover have "card {i, j} = 2" using assms(1) by simp
  ultimately show ?thesis by simp
qed

lemma funpow_2_3: "(f ^^ 2) s = f (f s)" "(f ^^ 3) s = f (f (f s))"
  by (simp_all add: eval_nat_numeral)

lemma firstPosition_fields:
  "currentTaskName (firstPosition st) = ''t1''"
  "allData (firstPosition st) = [sampleA, sampleB, sampleC]"
  by (simp_all add: firstPosition_def)

lemma tour_forward:
  "dataDisplay (firstPosition ''forward'') = ShowSample sampleA"
  "navigateNext (firstPosition ''forward'') =
     \<lparr>allData = [sampleA, sampleB, sampleC], filteredData = [sampleB, sampleC], currentIndex = 0,
      currentSetting = ''forward'', currentTaskName = ''t2'', currentStepLength = Some (Suc 0),
      availableTaskNames = [''t1'', ''t2''], availableStepLengths = [Suc 0, 2],
      showAnswer = False, stepOptions = [Suc 0, 2], dataDisplay = ShowSample sampleB\<rparr>"
  "navigateNext
     \<lparr>allData = [sampleA, sampleB, sampleC], filteredData = [sampleB, sampleC], currentIndex = 0,
      currentSetting = ''forward'', currentTaskName = ''t2'', currentStepLength = Some (Suc 0),
      availableTaskNames = [''t1'', ''t2''], availableStepLengths = [Suc 0, 2],
      showAnswer = False, stepOptions = [Suc 0, 2], dataDisplay = ShowSample sampleB\<rparr> =
     \<lparr>allData = [sampleA, sampleB, sampleC], filteredData = [sampleB, sampleC], currentIndex = 1,
      currentSetting = ''forward'', currentTaskName = ''t2'', currentStepLength = Some (Suc 0),
      availableTaskNames = [''t1'', ''t2''], availableStepLengths = [Suc 0, 2],
      showAnswer = False, stepOptions = [Suc 0, 2], dataDisplay = ShowSample sampleC\<rparr>"
  "navigateNext
     \<lparr>allData = [sampleA, sampleB, sampleC], filteredData = [sampleB, sampleC], currentIndex = 1,
      currentSetting = ''forward'', currentTaskName = ''t2'', currentStepLength = Some (Suc 0),
      availableTaskNames = [''t1'', ''t2''], availableStepLengths = [Suc 0, 2],
      showAnswer = False, stepOptions = [Suc 0, 2], dataDisplay = ShowSample sampleC\<rparr> =
     \<lparr>allData = [sampleA, sampleB, sampleC], filteredData = [sampleC], currentIndex = 0,
      currentSetting = ''forward'', currentTaskName = ''t2'', currentStepLength = Some 2,
      availableTaskNames = [''t1'', ''t2''], availableStepLengths = [Suc 0, 2],
      showAnswer = False, stepOptions = [Suc 0, 2], dataDisplay = ShowSample sampleC\<rparr>"
proof -
  show "dataDisplay (firstPosition ''forward'') = ShowSample sampleA"
    by (simp add: firstPosition_def eval_defs)
  show "navigateNext (firstPosition ''forward'') =
     \<lparr>allData = [sampleA, sampleB, sampleC], filteredData = [sampleB, sampleC], currentIndex = 0,
      currentSetting = ''forward'', currentTaskName = ''t2'', currentStepLength = Some (Suc 0),
      availableTaskNames = [''t1'', ''t2''], availableStepLengths = [Suc 0, 2],
      showAnswer = False, stepOptions = [Suc 0, 2], dataDisplay = ShowSample sampleB\<rparr>"
    by (simp add: firstPosition_def eval_defs Let_def)
  show "navigateNext
     \<lparr>allData = [sampleA, sampleB, sampleC], filteredData = [sampleB, sampleC], currentIndex = 0,
      currentSetting = ''forward'', currentTaskName = ''t2'', currentStepLength = Some (Suc 0),
      availableTaskNames = [''t1'', ''t2''], availableStepLengths = [Suc 0, 2],
      showAnswer = False, stepOptions = [Suc 0, 2], dataDisplay = ShowSample sampleB\<rparr> =
     \<lparr>allData = [sampleA, sampleB, sampleC], filteredData = [sampleB, sampleC], currentIndex = 1,
      currentSetting = ''forward'', currentTaskName = ''t2'', currentStepLength = Some (Suc 0),
      availableTaskNames = [''t1'', ''t2''], availableStepLengths = [Suc 0, 2],
      showAnswer = False, stepOptions = [Suc 0, 2], dataDisplay = ShowSample sampleC\<rparr>"
    by (simp add: navigateNext_def updateUI_def)
  show "navigateNext
     \<lparr>allData = [sampleA, sampleB, sampleC], filteredData = [sampleB, sampleC], currentIndex = 1,
      currentSetting = ''forward'', currentTaskName = ''t2'', currentStepLength = Some (Suc 0),
      availableTaskNames = [''t1'', ''t2''], availableStepLengths = [Suc 0, 2],
      showAnswer = False, stepOptions = [Suc 0, 2], dataDisplay = ShowSample sampleC\<rparr> =
     \<lparr>allData = [sampleA, sampleB, sampleC], filteredData = [sampleC], currentIndex = 0,
      currentSetting = ''forward'', currentTaskName = ''t2'', currentStepLength = Some 2,
      availableTaskNames = [''t1'', ''t2''], availableStepLengths = [Suc 0, 2],
      showAnswer = False, stepOptions = [Suc 0, 2], dataDisplay = ShowSample sampleC\<rparr>"
    by (simp add: eval_defs Let_def)
qed

lemma no_fullTour:
  assumes p0: "currentTaskName (navigateNext s) \<noteq> currentTaskName s"
    and p1: "currentIndex (navigateNext (navigateNext s)) \<noteq> currentIndex (navigateNext s)"
    and p2: "currentStepLength (navigateNext (navigateNext (navigateNext s)))
               \<noteq> currentStepLength (navigateNext (navigateNext s))"
    and d2: "dataDisplay (navigateNext (navigateNext s)) = ShowSample x"
    and d3: "dataDisplay (navigateNext (navigateNext (navigateNext s))) = ShowSample x"
    and mem: "x \<in> set (allData s)"
  shows "\<not> fullTour s N"
proof
  assume ft: "fullTour s N"
  then have stop: "navigateNext ((navigateNext ^^ N) s) = (navigateNext ^^ N) s"
    by (simp add: fullTour_def)
  have "3 \<le> N"
  proof (rule ccontr)
    assume "\<not> 3 \<le> N"
    then consider "N = 0" | "N = 1" | "N = 2" by linarith
    then show False
    proof cases
      case 1
      with stop p0 show False by simp
    next
      case 2
      with stop p1 show False by simp
    next
      case 3
      with stop p2 show False by (simp add: funpow_2_3)
    qed
  qed
  moreover have "displayedAt s 2 = ShowSample x" "displayedAt s 3 = ShowSample x"
    using d2 d3 by (simp_all add: displayedAt_def funpow_2_3)
  ultimately have "2 \<le> timesShown s N x"
    using shown_twice [of 2 3 N s x] by simp
  moreover have "timesShown s N x = 1"
    using ft mem by (simp add: fullTour_def list_all_iff)
  ultimately show False by simp
qed

lemma stepLengthsFor_sorted:
  "sorted (stepLengthsFor d st t)" "distinct (stepLengthsFor d st t)"
  by (simp_all add: stepLengthsFor_def)

lemma settings_facts: "length settings = 3" "distinct settings"
  by (simp_all add: settings_def)

lemma progress_index:
  assumes wf: "wellFormed s" and lt: "currentIndex s < int (length (filteredData s)) - 1"
  shows "wellFormed (navigateNext s)"
    and "(navigateNext s, s) \<in> measures [settingRank, taskRank, stepRank, indexRank]"
proof -
  have n: "navigateNext s = updateUI (s\<lparr>currentIndex := currentIndex s + 1, showAnswer := False\<rparr>)"
    using lt by (simp add: navigateNext_def)
  show "wellFormed (navigateNext s)" using wf by (auto simp: n wellFormed_def split: option.splits)
  have "settingRank (navigateNext s) = settingRank s" "taskRank (navigateNext s) = taskRank s"
    "stepRank (navigateNext s) = stepRank s"
    by (simp_all add: n settingRank_def taskRank_def stepRank_def split: option.splits)
  moreover have "indexRank (navigateNext s) < indexRank s"
    using lt by (simp add: n indexRank_def)
  ultimately show "(navigateNext s, s) \<in> measures [settingRank, taskRank, stepRank, indexRank]"
    by simp
qed

lemma progress_step:
  assumes wf: "wellFormed s" and ge: "\<not> currentIndex s < int (length (filteredData s)) - 1"
    and ns: "\<not> noNextStep s"
  shows "wellFormed (navigateNext s)"
    and "(navigateNext s, s) \<in> measures [settingRank, taskRank, stepRank, indexRank]"
    and "stepRank (navigateNext s) < stepRank s"
proof -
  let ?av = "availableStepLengths s"
  from ns obtain n where st: "currentStepLength s = Some n"
    and lt: "indexOf ?av n < int (length ?av) - 1"
    by (auto simp: noNextStep_def split: option.splits)
  from wf st have op: "stepOptions s = ?av" and di: "distinct ?av"
    by (auto simp: wellFormed_def)
  define j where "j = nat (indexOf ?av n + 1)"
  have j: "j < length ?av" "int j = indexOf ?av n + 1"
    using lt indexOf_ge [of ?av n] by (simp_all add: j_def)
  define m where "m = ?av ! j"
  have res: "moveToNextCategory s = (True, updateUI (filterData (s\<lparr>currentStepLength := Some m\<rparr>)))"
    using moveToNextCategory_step [OF st lt op] by (simp add: m_def j_def)
  have n: "navigateNext s = updateUI (filterData (s\<lparr>currentStepLength := Some m\<rparr>))"
    using ge by (simp add: navigateNext_def res)
  have mm: "m \<in> set ?av" using j(1) by (simp add: m_def)
  show "wellFormed (navigateNext s)" using wf mm by (auto simp: n wellFormed_def split: option.splits)
  have im: "indexOf ?av m = int j" unfolding m_def by (rule indexOf_nth_distinct [OF di j(1)])
  have "settingRank (navigateNext s) = settingRank s" "taskRank (navigateNext s) = taskRank s"
    by (simp_all add: n settingRank_def taskRank_def)
  moreover show "stepRank (navigateNext s) < stepRank s"
    using st lt j by (simp add: n stepRank_def im)
  ultimately show "(navigateNext s, s) \<in> measures [settingRank, taskRank, stepRank, indexRank]"
    by simp
qed

lemma progress_task:
  assumes wf: "wellFormed s" and ge: "\<not> currentIndex s < int (length (filteredData s)) - 1"
    and ns: "noNextStep s" and nt: "\<not> noNextTask s"
  shows "wellFormed (navigateNext s)"
    and "(navigateNext s, s) \<in> measures [settingRank, taskRank, stepRank, indexRank]"
    and "taskRank (navigateNext s) < taskRank s"
proof -
  let ?s0 = "s\<lparr>currentStepLength := None\<rparr>"
  let ?nm = "availableTaskNames s"
  let ?i = "indexOf ?nm (currentTaskName s)"
  from nt have ne: "currentTaskName s \<noteq> []" and lt: "?i < int (length ?nm) - 1"
    by (auto simp: noNextTask_def)
  from wf have so: "sorted ?nm" and di: "distinct ?nm" by (auto simp: wellFormed_def)
  define j where "j = nat (?i + 1)"
  have j: "j < length ?nm" "int j = ?i + 1"
    using lt indexOf_ge [of ?nm "currentTaskName s"] by (simp_all add: j_def)
  have n: "navigateNext s = snd (moveToNextTask ?s0)"
    using ge ns by (simp add: navigateNext_def moveToNextCategory_fall)
  have ne0: "currentTaskName ?s0 \<noteq> []" using ne by simp
  have lt0: "indexOf (availableTaskNames ?s0) (currentTaskName ?s0)
               < int (length (availableTaskNames ?s0)) - 1"
    using lt by simp
  note mv = moveToNextTask_moved [OF ne0 lt0]
  have t': "currentTaskName (navigateNext s) = ?nm ! j"
    using mv(2) by (simp add: n j_def)
  have nm': "availableTaskNames (navigateNext s) = ?nm" using mv(10) by (simp add: n)
  have st': "currentSetting (navigateNext s) = currentSetting s" using mv(3) by (simp add: n)
  show "wellFormed (navigateNext s)"
    unfolding wellFormed_def t' nm'
    using mv(4) mv(5) mv(6) so di j(1)
    by (auto simp: n stepLengthsFor_sorted split: option.splits)
  have it: "indexOf ?nm (?nm ! j) = int j" by (rule indexOf_nth_distinct [OF di j(1)])
  have "settingRank (navigateNext s) = settingRank s"
    by (simp add: settingRank_def st')
  moreover show "taskRank (navigateNext s) < taskRank s"
    using ne lt j by (simp add: taskRank_def t' nm' it)
  ultimately show "(navigateNext s, s) \<in> measures [settingRank, taskRank, stepRank, indexRank]"
    by simp
qed

lemma progress_setting:
  assumes wf: "wellFormed s" and ge: "\<not> currentIndex s < int (length (filteredData s)) - 1"
    and ns: "noNextStep s" and nt: "noNextTask s"
    and lt: "indexOf settings (currentSetting s) < 2"
  shows "wellFormed (navigateNext s)"
    and "(navigateNext s, s) \<in> measures [settingRank, taskRank, stepRank, indexRank]"
proof -
  let ?s0 = "s\<lparr>currentStepLength := None, currentTaskName := []\<rparr>"
  let ?i = "indexOf settings (currentSetting s)"
  from nt have "noNextTask (s\<lparr>currentStepLength := None\<rparr>)" by (simp add: noNextTask_def)
  with ns have eq: "moveToNextCategory s = moveToNextSetting ?s0"
    by (simp add: moveToNextCategory_fall moveToNextTask_fall)
  have n: "navigateNext s = snd (moveToNextSetting ?s0)"
    using ge by (simp add: navigateNext_def eq)
  from lt have lt0: "indexOf settings (currentSetting ?s0) < 2" by simp
  have sn: "currentStepLength ?s0 = None" by simp
  note mv = moveToNextSetting_moved [OF lt0]
  define j where "j = nat (?i + 1)"
  have j: "j < length settings" "int j = ?i + 1"
    using lt indexOf_ge [of settings "currentSetting s"] by (simp_all add: j_def settings_facts)
  have st': "currentSetting (navigateNext s) = settings ! j"
    using mv(2) by (simp add: n j_def)
  have step': "currentStepLength (navigateNext s) =
                 (if stepOptions s = [] then None else Some (hd (stepOptions s)))"
    using mv(10) [OF sn] by (simp add: n)
  from wf have op: "stepOptions s = availableStepLengths s" by (simp add: wellFormed_def)
  show "wellFormed (navigateNext s)"
    unfolding wellFormed_def step'
    using wf mv(3) mv(7) mv(8) mv(9)
    by (auto simp: n wellFormed_def split: option.splits)
  have "indexOf settings (settings ! j) = int j"
    by (rule indexOf_nth_distinct [OF settings_facts(2) j(1)])
  then have "settingRank (navigateNext s) < settingRank s"
    using lt j by (simp add: settingRank_def st')
  then show "(navigateNext s, s) \<in> measures [settingRank, taskRank, stepRank, indexRank]"
    by simp
qed

lemma stuck_after_clear:
  assumes ge: "\<not> currentIndex s < int (length (filteredData s)) - 1"
    and ns: "noNextStep s" and nt: "noNextTask s"
    and lt: "\<not> indexOf settings (currentSetting s) < 2"
  shows "navigateNext s = s\<lparr>currentStepLength := None, currentTaskName := []\<rparr>"
    and "navigateNext (navigateNext s) = navigateNext s"
proof -
  let ?s0 = "s\<lparr>currentStepLength := None, currentTaskName := []\<rparr>"
  have one: "navigateNext t = t\<lparr>currentStepLength := None, currentTaskName := []\<rparr>"
    if "\<not> currentIndex t < int (length (filteredData t)) - 1" "noNextStep t" "noNextTask t"
      "\<not> indexOf settings (currentSetting t) < 2" for t
  proof -
    from that(3) have "noNextTask (t\<lparr>currentStepLength := None\<rparr>)" by (simp add: noNextTask_def)
    with that(2) have "moveToNextCategory t =
        moveToNextSetting (t\<lparr>currentStepLength := None, currentTaskName := []\<rparr>)"
      by (simp add: moveToNextCategory_fall moveToNextTask_fall)
    moreover have "moveToNextSetting (t\<lparr>currentStepLength := None, currentTaskName := []\<rparr>)
        = (False, t\<lparr>currentStepLength := None, currentTaskName := []\<rparr>)"
      using that(4) by (intro moveToNextSetting_stay) simp
    ultimately show ?thesis using that(1) by (simp add: navigateNext_def)
  qed
  show a: "navigateNext s = ?s0" by (rule one [OF assms])
  have "navigateNext ?s0 = ?s0\<lparr>currentStepLength := None, currentTaskName := []\<rparr>"
    using ge lt by (intro one) (simp_all add: noNextStep_def noNextTask_def)
  then show "navigateNext (navigateNext s) = navigateNext s" by (simp add: a)
qed

lemma navigateNext_progress:
  assumes wf: "wellFormed s"
  shows "navigateNext (navigateNext s) = navigateNext s \<or>
         (wellFormed (navigateNext s) \<and>
          (navigateNext s, s) \<in> measures [settingRank, taskRank, stepRank, indexRank])"
proof (cases "currentIndex s < int (length (filteredData s)) - 1")
  case True
  then show ?thesis using progress_index [OF wf] by blast
next
  case ge: False
  show ?thesis
  proof (cases "noNextStep s")
    case False
    then show ?thesis using progress_step [OF wf ge] by blast
  next
    case ns: True
    show ?thesis
    proof (cases "noNextTask s")
      case False
      then show ?thesis using progress_task [OF wf ge ns] by blast
    next
      case nt: True
      show ?thesis
      proof (cases "indexOf settings (currentSetting s) < 2")
        case True
        then show ?thesis using progress_setting [OF wf ge ns nt] by blast
      next
        case False
        then show ?thesis using stuck_after_clear(2) [OF ge ns nt] by blast
      qed
    qed
  qed
qed

lemma eventually_stuck:
  "wellFormed s \<Longrightarrow> \<exists>N. navigateNext ((navigateNext ^^ N) s) = (navigateNext ^^ N) s"
proof (induction s rule: wf_induct_rule [OF wf_measures [of "[settingRank, taskRank, stepRank, indexRank]"]])
  case (1 s)
  from navigateNext_progress [OF "1.prems"]
  show ?case
  proof
    assume "navigateNext (navigateNext s) = navigateNext s"
    then have "navigateNext ((navigateNext ^^ 1) s) = (navigateNext ^^ 1) s" by simp
    then show ?thesis by blast
  next
    assume "wellFormed (navigateNext s) \<and>
          (navigateNext s, s) \<in> measures [settingRank, taskRank, stepRank, indexRank]"
    then obtain N where
      "navigateNext ((navigateNext ^^ N) (navigateNext s)) = (navigateNext ^^ N) (navigateNext s)"
      using "1.IH" by blast
    then have "navigateNext ((navigateNext ^^ Suc N) s) = (navigateNext ^^ Suc N) s"
      by (simp add: funpow_swap1)
    then show ?thesis by blast
  qed
qed

lemma funpow_fixed: "f x = x \<Longrightarrow> (f ^^ k) x = x"
  by (induction k) simp_all

lemma eventually_constant:
  assumes "wellFormed s"
  shows "\<exists>N. \<forall>k \<ge> N. (navigateNext ^^ k) s = (navigateNext ^^ N) s"
proof -
  from eventually_stuck [OF assms] obtain N where
    fx: "navigateNext ((navigateNext ^^ N) s) = (navigateNext ^^ N) s" by blast
  have "(navigateNext ^^ k) s = (navigateNext ^^ N) s" if "N \<le> k" for k
  proof -
    from that obtain d where "k = d + N" by (metis le_add_diff_inverse2)
    then have "(navigateNext ^^ k) s = (navigateNext ^^ d) ((navigateNext ^^ N) s)"
      by (simp add: funpow_add)
    then show ?thesis using funpow_fixed [where f = navigateNext, OF fx] by simp
  qed
  then show ?thesis by blast
qed

lemma updateUI_in_range:
  "0 \<le> currentIndex a \<Longrightarrow> currentIndex a < int (length (filteredData a)) \<Longrightarrow>
   updateUI a = a\<lparr>dataDisplay := ShowSample (filteredData a ! nat (currentIndex a))\<rparr>"
  by (auto simp: updateUI_def)

lemma updateUI_empty: "filteredData a = [] \<Longrightarrow> updateUI a = a\<lparr>dataDisplay := NoData\<rparr>"
  by (simp add: updateUI_def)

lemma walk_in_list:
  assumes "0 \<le> currentIndex s" "currentIndex s + int k \<le> int (length (filteredData s)) - 1" "0 < k"
  shows "(navigateNext ^^ k) s =
           s\<lparr>currentIndex := currentIndex s + int k, showAnswer := False,
             dataDisplay := ShowSample (filteredData s ! nat (currentIndex s + int k))\<rparr>"
  using assms
proof (induction k)
  case 0
  from "0.prems"(3) have False by simp
  then show ?case by (rule FalseE)
next
  case (Suc k)
  show ?case
  proof (cases "k = 0")
    case True
    with Suc.prems have "currentIndex s < int (length (filteredData s)) - 1" by simp
    with Suc.prems True show ?thesis
      by (simp add: navigateNext_def updateUI_in_range)
  next
    case False
    with Suc have ih: "(navigateNext ^^ k) s =
           s\<lparr>currentIndex := currentIndex s + int k, showAnswer := False,
             dataDisplay := ShowSample (filteredData s ! nat (currentIndex s + int k))\<rparr>"
      by simp
    from Suc.prems have lt: "currentIndex s + int k < int (length (filteredData s)) - 1" by simp
    define t where "t = s\<lparr>currentIndex := currentIndex s + int k, showAnswer := False,
             dataDisplay := ShowSample (filteredData s ! nat (currentIndex s + int k))\<rparr>"
    have "navigateNext t =
           s\<lparr>currentIndex := currentIndex s + int (Suc k), showAnswer := False,
             dataDisplay := ShowSample (filteredData s ! nat (currentIndex s + int (Suc k)))\<rparr>"
      using lt Suc.prems(1)
      by (simp add: t_def navigateNext_def updateUI_in_range ac_simps)
    moreover have "(navigateNext ^^ Suc k) s = navigateNext t"
      unfolding t_def ih [symmetric] by simp
    ultimately show ?thesis by simp
  qed
qed

lemma displayed_in_list:
  assumes "currentIndex s = 0" "updateUI s = s" "j < length (filteredData s)"
  shows "displayedAt s j = ShowSample (filteredData s ! j)"
proof (cases "j = 0")
  case True
  have "updateUI s = s\<lparr>dataDisplay := ShowSample (filteredData s ! nat (currentIndex s))\<rparr>"
    using assms(1,3) by (intro updateUI_in_range) auto
  then have "dataDisplay (updateUI s) = ShowSample (filteredData s ! 0)" using assms(1) by simp
  then show ?thesis using True assms(2) by (simp add: displayedAt_def)
next
  case False
  then have "(navigateNext ^^ j) s =
           s\<lparr>currentIndex := currentIndex s + int j, showAnswer := False,
             dataDisplay := ShowSample (filteredData s ! nat (currentIndex s + int j))\<rparr>"
    using assms(1,3) by (intro walk_in_list) simp_all
  then show ?thesis using assms(1) by (simp add: displayedAt_def)
qed

lemma end_of_list:
  assumes "currentIndex s = 0" "wellFormed s"
  shows "\<exists>k. sameCategory s ((navigateNext ^^ k) s) \<and> wellFormed ((navigateNext ^^ k) s) \<and>
             \<not> currentIndex ((navigateNext ^^ k) s) < int (length (filteredData ((navigateNext ^^ k) s))) - 1"
proof (cases "length (filteredData s) \<le> 1")
  case True
  then have "sameCategory s ((navigateNext ^^ 0) s) \<and> wellFormed ((navigateNext ^^ 0) s) \<and>
             \<not> currentIndex ((navigateNext ^^ 0) s) < int (length (filteredData ((navigateNext ^^ 0) s))) - 1"
    using assms by (simp add: sameCategory_def)
  then show ?thesis by blast
next
  case False
  define k where "k = length (filteredData s) - 1"
  have k: "0 < k" "int k = int (length (filteredData s)) - 1" using False by (simp_all add: k_def)
  have w: "(navigateNext ^^ k) s =
           s\<lparr>currentIndex := currentIndex s + int k, showAnswer := False,
             dataDisplay := ShowSample (filteredData s ! nat (currentIndex s + int k))\<rparr>"
    using assms(1) k by (intro walk_in_list) simp_all
  have "sameCategory s ((navigateNext ^^ k) s) \<and> wellFormed ((navigateNext ^^ k) s) \<and>
             \<not> currentIndex ((navigateNext ^^ k) s) < int (length (filteredData ((navigateNext ^^ k) s))) - 1"
    unfolding w using assms k by (auto simp: sameCategory_def wellFormed_def split: option.splits)
  then show ?thesis by blast
qed

lemma shown_later: "shown ((navigateNext ^^ k) s) x \<Longrightarrow> shown s x"
proof -
  assume "shown ((navigateNext ^^ k) s) x"
  then obtain j where "displayedAt ((navigateNext ^^ k) s) j = ShowSample x"
    by (auto simp: shown_def)
  then have "displayedAt s (j + k) = ShowSample x"
    by (simp add: displayedAt_def funpow_add)
  then show ?thesis unfolding shown_def by blast
qed

lemma shown_next: "shown (navigateNext s) x \<Longrightarrow> shown s x"
  using shown_later [of 1 s x] by simp

lemma list_shown:
  assumes "currentIndex s = 0" "updateUI s = s" "x \<in> set (filteredData s)"
  shows "shown s x"
proof -
  from assms(3) obtain j where "j < length (filteredData s)" "filteredData s ! j = x"
    by (auto simp: in_set_conv_nth)
  then have "displayedAt s j = ShowSample x"
    using displayed_in_list [OF assms(1,2)] by simp
  then show ?thesis unfolding shown_def by blast
qed

lemma updateUI_idem: "updateUI (updateUI a) = updateUI a"
  by (simp add: updateUI_def)

lemma sameCategory_ranks:
  "sameCategory s t \<Longrightarrow> stepRank t = stepRank s \<and> taskRank t = taskRank s"
  by (simp add: sameCategory_def stepRank_def taskRank_def split: option.splits)

lemma next_step_state:
  assumes wf: "wellFormed e" and ge: "\<not> currentIndex e < int (length (filteredData e)) - 1"
    and ns: "\<not> noNextStep e"
  shows "\<exists>n m. currentStepLength e = Some n \<and> m \<in> set (availableStepLengths e) \<and> n < m \<and>
           (\<forall>k \<in> set (availableStepLengths e). n < k \<longrightarrow> m \<le> k) \<and>
           navigateNext e = updateUI (filterData (e\<lparr>currentStepLength := Some m\<rparr>))"
proof -
  let ?av = "availableStepLengths e"
  from ns obtain n where st: "currentStepLength e = Some n"
    and lt: "indexOf ?av n < int (length ?av) - 1"
    by (auto simp: noNextStep_def split: option.splits)
  from wf st have mem: "n \<in> set ?av" and so: "sorted ?av" and di: "distinct ?av"
    and op: "stepOptions e = ?av"
    by (auto simp: wellFormed_def)
  from mem have i0: "0 \<le> indexOf ?av n" using indexOf_neg_iff [of ?av n] by linarith
  define j where "j = nat (indexOf ?av n)"
  have j: "Suc j < length ?av" "nat (indexOf ?av n + 1) = Suc j" using i0 lt by (simp_all add: j_def)
  have nj: "?av ! j = n" using indexOf_nth [OF mem] by (simp add: j_def)
  define m where "m = ?av ! Suc j"
  have res: "moveToNextCategory e = (True, updateUI (filterData (e\<lparr>currentStepLength := Some m\<rparr>)))"
    using moveToNextCategory_step [OF st lt op] by (simp add: m_def j)
  have "navigateNext e = updateUI (filterData (e\<lparr>currentStepLength := Some m\<rparr>))"
    using ge by (simp add: navigateNext_def res)
  moreover have "m \<in> set ?av" using j(1) by (simp add: m_def)
  moreover have "n < m" using sorted_distinct_next(1) [OF so di j(1)] by (simp add: nj m_def)
  moreover have "\<forall>k \<in> set ?av. n < k \<longrightarrow> m \<le> k"
    using sorted_distinct_next(2) [OF so di j(1)] by (simp add: nj m_def)
  ultimately show ?thesis using st by blast
qed

lemma last_step_greatest:
  assumes wf: "wellFormed e" and ns: "noNextStep e" and st: "currentStepLength e = Some n"
    and m: "m \<in> set (availableStepLengths e)"
  shows "m \<le> n"
proof -
  let ?av = "availableStepLengths e"
  from wf st have mem: "n \<in> set ?av" and so: "sorted ?av" by (auto simp: wellFormed_def)
  from ns st have ge: "int (length ?av) - 1 \<le> indexOf ?av n" by (simp add: noNextStep_def)
  from m obtain j where j: "j < length ?av" "?av ! j = m" by (auto simp: in_set_conv_nth)
  have "indexOf ?av n < int (length ?av)" by (rule indexOf_lt)
  with ge j(1) have "j \<le> nat (indexOf ?av n)" "nat (indexOf ?av n) < length ?av" by linarith+
  then have "?av ! j \<le> ?av ! nat (indexOf ?av n)" using so by (simp add: sorted_nth_mono)
  then show ?thesis using j(2) indexOf_nth [OF mem] by simp
qed

lemma step_phase:
  assumes "wellFormed e" "\<not> currentIndex e < int (length (filteredData e)) - 1"
  shows "(\<exists>k. endOfTask e ((navigateNext ^^ k) e)) \<and>
         (\<forall>n m x. currentStepLength e = Some n \<and> m \<in> set (availableStepLengths e) \<and> n < m \<and>
             x \<in> set (applyFilter (allData e) (currentSetting e) (currentTaskName e) (Some m))
             \<longrightarrow> shown e x)"
  using assms
proof (induction "stepRank e" arbitrary: e rule: less_induct)
  case less
  note wf = less.prems(1) and ge = less.prems(2)
  show ?case
  proof (cases "noNextStep e")
    case True
    have "endOfTask e ((navigateNext ^^ 0) e)" using wf ge True by (simp add: endOfTask_def)
    then have "\<exists>k. endOfTask e ((navigateNext ^^ k) e)" by blast
    moreover have "\<forall>n m x. currentStepLength e = Some n \<and> m \<in> set (availableStepLengths e) \<and> n < m \<and>
             x \<in> set (applyFilter (allData e) (currentSetting e) (currentTaskName e) (Some m))
             \<longrightarrow> shown e x"
      using last_step_greatest [OF wf True] by fastforce
    ultimately show ?thesis by blast
  next
    case False
    from next_step_state [OF wf ge False] obtain n m1 where
      st: "currentStepLength e = Some n" and m1: "m1 \<in> set (availableStepLengths e)" "n < m1"
      and least: "\<forall>k \<in> set (availableStepLengths e). n < k \<longrightarrow> m1 \<le> k"
      and nx: "navigateNext e = updateUI (filterData (e\<lparr>currentStepLength := Some m1\<rparr>))"
      by blast
    define s1 where "s1 = navigateNext e"
    have wf1: "wellFormed s1" unfolding s1_def by (rule progress_step(1) [OF wf ge False])
    have f1: "currentIndex s1 = 0" "updateUI s1 = s1" "allData s1 = allData e"
      "currentSetting s1 = currentSetting e" "currentTaskName s1 = currentTaskName e"
      "availableTaskNames s1 = availableTaskNames e"
      "availableStepLengths s1 = availableStepLengths e"
      "currentStepLength s1 = Some m1"
      "filteredData s1 = applyFilter (allData e) (currentSetting e) (currentTaskName e) (Some m1)"
      by (simp_all add: s1_def nx updateUI_idem filterData_applyFilter)
    have r1: "stepRank s1 < stepRank e"
      unfolding s1_def by (rule progress_step(3) [OF wf ge False])
    from end_of_list [OF f1(1) wf1] obtain k1 where
      sc: "sameCategory s1 ((navigateNext ^^ k1) s1)" and wfe1: "wellFormed ((navigateNext ^^ k1) s1)"
      and ge1: "\<not> currentIndex ((navigateNext ^^ k1) s1)
                  < int (length (filteredData ((navigateNext ^^ k1) s1))) - 1"
      by blast
    define e1 where "e1 = (navigateNext ^^ k1) s1"
    have re1: "stepRank e1 < stepRank e" using sameCategory_ranks [OF sc] r1 by (simp add: e1_def)
    have g1: "allData e1 = allData e" "currentSetting e1 = currentSetting e"
      "currentTaskName e1 = currentTaskName e" "availableTaskNames e1 = availableTaskNames e"
      "availableStepLengths e1 = availableStepLengths e" "currentStepLength e1 = Some m1"
      using sc f1 by (simp_all add: sameCategory_def e1_def)
    from less.hyps [OF re1] wfe1 ge1
    have ih1: "\<exists>k. endOfTask e1 ((navigateNext ^^ k) e1)"
      and ih2: "\<And>m x. m \<in> set (availableStepLengths e) \<Longrightarrow> m1 < m \<Longrightarrow>
                  x \<in> set (applyFilter (allData e) (currentSetting e) (currentTaskName e) (Some m))
                  \<Longrightarrow> shown e1 x"
      unfolding e1_def [symmetric] using g1 by auto
    have e1_reach: "e1 = (navigateNext ^^ (k1 + 1)) e"
      by (simp add: e1_def s1_def funpow_swap1)
    from ih1 obtain k2 where "endOfTask e1 ((navigateNext ^^ k2) e1)" by blast
    then have "endOfTask e ((navigateNext ^^ k2) e1)"
      using g1 by (simp add: endOfTask_def)
    moreover have "(navigateNext ^^ k2) e1 = (navigateNext ^^ (k2 + (k1 + 1))) e"
      unfolding e1_reach by (simp only: funpow_add o_apply)
    ultimately have "endOfTask e ((navigateNext ^^ (k2 + (k1 + 1))) e)" by simp
    then have part1: "\<exists>k. endOfTask e ((navigateNext ^^ k) e)" by blast
    have part2: "shown e x"
      if "currentStepLength e = Some n'" "m \<in> set (availableStepLengths e)" "n' < m"
        "x \<in> set (applyFilter (allData e) (currentSetting e) (currentTaskName e) (Some m))"
      for n' m x
    proof -
      from that(1) st have "n' = n" by simp
      with that(2,3) least have "m1 \<le> m" by blast
      show ?thesis
      proof (cases "m = m1")
        case True
        with that(4) have "x \<in> set (filteredData s1)" by (simp add: f1)
        then have "shown s1 x" using list_shown [OF f1(1) f1(2)] by blast
        then show ?thesis unfolding s1_def by (rule shown_next)
      next
        case False
        with \<open>m1 \<le> m\<close> have "m1 < m" by simp
        then have "shown e1 x" using ih2 that(2,4) by blast
        then show ?thesis unfolding e1_reach by (rule shown_later)
      qed
    qed
    from part1 part2 show ?thesis by blast
  qed
qed

lemma moveToNextTask_sync:
  assumes "currentTaskName s \<noteq> []"
    and "indexOf (availableTaskNames s) (currentTaskName s) < int (length (availableTaskNames s)) - 1"
  shows "updateUI (snd (moveToNextTask s)) = snd (moveToNextTask s)"
proof -
  define t' where "t' = availableTaskNames s ! nat (indexOf (availableTaskNames s) (currentTaskName s) + 1)"
  define s1 where "s1 = populateStepLengthsForCurrentFilters (filterData
                    (s\<lparr>currentTaskName := t', currentStepLength := None\<rparr>))"
  have "moveToNextTask s = (True, updateFilterUI (updateUI s1))"
    using assms by (simp add: moveToNextTask_def Let_def s1_def t'_def)
  moreover have "updateFilterUI (updateUI s1) = updateUI s1"
  proof (cases "stepLengthsFor (allData s) (currentSetting s) t' = []")
    case True
    then have "stepOptions (updateUI s1) = []" by (simp add: s1_def populate_options)
    then show ?thesis by (rule updateFilterUI_no_options)
  next
    case False
    then have "currentStepLength (updateUI s1) = Some (hd (stepLengthsFor (allData s) (currentSetting s) t'))"
      and "hd (stepLengthsFor (allData s) (currentSetting s) t') \<in> set (stepOptions (updateUI s1))"
      by (simp_all add: s1_def populate_step_None populate_options Let_def)
    then show ?thesis by (rule updateFilterUI_same)
  qed
  ultimately show ?thesis by (simp add: updateUI_idem)
qed

lemma next_task_state:
  assumes wf: "wellFormed e" and ge: "\<not> currentIndex e < int (length (filteredData e)) - 1"
    and ns: "noNextStep e" and nt: "\<not> noNextTask e"
  shows "wellFormed (navigateNext e)"
    and "currentIndex (navigateNext e) = 0"
    and "updateUI (navigateNext e) = navigateNext e"
    and "allData (navigateNext e) = allData e"
    and "currentSetting (navigateNext e) = currentSetting e"
    and "availableTaskNames (navigateNext e) = availableTaskNames e"
    and "currentTaskName e < currentTaskName (navigateNext e)"
    and "\<And>k. k \<in> set (availableTaskNames e) \<Longrightarrow> currentTaskName e < k
           \<Longrightarrow> currentTaskName (navigateNext e) \<le> k"
    and "filteredData (navigateNext e) =
           applyFilter (allData e) (currentSetting e) (currentTaskName (navigateNext e)) None"
    and "taskRank (navigateNext e) < taskRank e"
proof -
  let ?s0 = "e\<lparr>currentStepLength := None\<rparr>"
  let ?nm = "availableTaskNames e"
  let ?i = "indexOf ?nm (currentTaskName e)"
  from nt have ne: "currentTaskName e \<noteq> []" and lt: "?i < int (length ?nm) - 1"
    by (auto simp: noNextTask_def)
  from wf ne have mem: "currentTaskName e \<in> set ?nm" and so: "sorted ?nm" and di: "distinct ?nm"
    by (auto simp: wellFormed_def)
  from mem have i0: "0 \<le> ?i" using indexOf_neg_iff [of ?nm "currentTaskName e"] by linarith
  define j where "j = nat ?i"
  have j: "Suc j < length ?nm" "nat (?i + 1) = Suc j" using i0 lt by (simp_all add: j_def)
  have nj: "?nm ! j = currentTaskName e" using indexOf_nth [OF mem] by (simp add: j_def)
  have n: "navigateNext e = snd (moveToNextTask ?s0)"
    using ge ns by (simp add: navigateNext_def moveToNextCategory_fall)
  have ne0: "currentTaskName ?s0 \<noteq> []" using ne by simp
  have lt0: "indexOf (availableTaskNames ?s0) (currentTaskName ?s0)
               < int (length (availableTaskNames ?s0)) - 1"
    using lt by simp
  note mv = moveToNextTask_moved [OF ne0 lt0]
  have t': "currentTaskName (navigateNext e) = ?nm ! Suc j"
    using mv(2) by (simp add: n j)
  show "wellFormed (navigateNext e)" by (rule progress_task(1) [OF wf ge ns nt])
  show "taskRank (navigateNext e) < taskRank e" by (rule progress_task(3) [OF wf ge ns nt])
  show "currentIndex (navigateNext e) = 0" using mv(8) by (simp add: n)
  show "updateUI (navigateNext e) = navigateNext e"
    unfolding n by (rule moveToNextTask_sync [OF ne0 lt0])
  show "allData (navigateNext e) = allData e" using mv(9) by (simp add: n)
  show "currentSetting (navigateNext e) = currentSetting e" using mv(3) by (simp add: n)
  show "availableTaskNames (navigateNext e) = availableTaskNames e" using mv(10) by (simp add: n)
  show "currentTaskName e < currentTaskName (navigateNext e)"
    using sorted_distinct_next(1) [OF so di j(1)] by (simp add: nj t')
  show "\<And>k. k \<in> set (availableTaskNames e) \<Longrightarrow> currentTaskName e < k
           \<Longrightarrow> currentTaskName (navigateNext e) \<le> k"
    using sorted_distinct_next(2) [OF so di j(1)] by (simp add: nj t')
  show "filteredData (navigateNext e) =
           applyFilter (allData e) (currentSetting e) (currentTaskName (navigateNext e)) None"
    unfolding t' using mv(7) by (simp add: n j)
qed

lemma last_task_greatest:
  assumes wf: "wellFormed e" and nt: "noNextTask e" and ne: "currentTaskName e \<noteq> []"
    and m: "t \<in> set (availableTaskNames e)"
  shows "t \<le> currentTaskName e"
proof -
  let ?nm = "availableTaskNames e"
  let ?i = "indexOf ?nm (currentTaskName e)"
  from wf ne have mem: "currentTaskName e \<in> set ?nm" and so: "sorted ?nm"
    by (auto simp: wellFormed_def)
  from nt ne have ge: "int (length ?nm) - 1 \<le> ?i" by (simp add: noNextTask_def)
  from m obtain j where j: "j < length ?nm" "?nm ! j = t" by (auto simp: in_set_conv_nth)
  have "?i < int (length ?nm)" by (rule indexOf_lt)
  with ge j(1) have "j \<le> nat ?i" "nat ?i < length ?nm" by linarith+
  then have "?nm ! j \<le> ?nm ! nat ?i" using so by (simp add: sorted_nth_mono)
  then show ?thesis using j(2) indexOf_nth [OF mem] by simp
qed

lemma task_phase:
  assumes "wellFormed e" "\<not> currentIndex e < int (length (filteredData e)) - 1" "noNextStep e"
    "currentTaskName e \<noteq> []"
  shows "\<forall>x \<in> set (allData e).
           matchesFilter (currentSetting e) [] None x \<and>
           task_name x \<in> set (availableTaskNames e) \<and> currentTaskName e < task_name x
           \<longrightarrow> shown e x"
  using assms
proof (induction "taskRank e" arbitrary: e rule: less_induct)
  case less
  note wf = less.prems(1) and ge = less.prems(2) and ns = less.prems(3) and ne = less.prems(4)
  show ?case
  proof (cases "noNextTask e")
    case True
    show ?thesis using last_task_greatest [OF wf True ne] by fastforce
  next
    case False
    note nx = next_task_state [OF wf ge ns False]
    define s1 where "s1 = navigateNext e"
    define t' where "t' = currentTaskName s1"
    have ne': "t' \<noteq> []" using nx(7) unfolding t'_def s1_def by auto
    from end_of_list [OF nx(2) nx(1)] obtain k1 where
      sc: "sameCategory s1 ((navigateNext ^^ k1) s1)" and wfe1: "wellFormed ((navigateNext ^^ k1) s1)"
      and ge1: "\<not> currentIndex ((navigateNext ^^ k1) s1)
                  < int (length (filteredData ((navigateNext ^^ k1) s1))) - 1"
      unfolding s1_def by blast
    define e1 where "e1 = (navigateNext ^^ k1) s1"
    from step_phase [OF wfe1 ge1] obtain k2 where eot: "endOfTask e1 ((navigateNext ^^ k2) e1)"
      unfolding e1_def by blast
    define e2 where "e2 = (navigateNext ^^ k2) e1"
    have g1: "allData e1 = allData e" "currentSetting e1 = currentSetting e"
      "currentTaskName e1 = t'" "availableTaskNames e1 = availableTaskNames e"
      using sc nx(4,5,6) by (simp_all add: sameCategory_def e1_def s1_def t'_def)
    from eot have g2: "wellFormed e2" "\<not> currentIndex e2 < int (length (filteredData e2)) - 1"
      "noNextStep e2" "allData e2 = allData e" "currentSetting e2 = currentSetting e"
      "currentTaskName e2 = t'" "availableTaskNames e2 = availableTaskNames e"
      using g1 by (simp_all add: endOfTask_def e2_def)
    have rk: "taskRank e2 < taskRank e"
    proof -
      have "taskRank e2 = taskRank s1"
        using g2(6,7) nx(6) by (simp add: taskRank_def t'_def s1_def)
      then show ?thesis using nx(10) by (simp add: s1_def)
    qed
    have ne2: "currentTaskName e2 \<noteq> []" using ne' g2(6) by simp
    note ih = less.hyps [OF rk g2(1) g2(2) g2(3) ne2]
    have e2_reach: "e2 = (navigateNext ^^ (k2 + (k1 + 1))) e"
      unfolding e2_def e1_def s1_def by (simp add: funpow_add funpow_swap1)
    show ?thesis
    proof (intro ballI impI)
      fix x
      assume x: "x \<in> set (allData e)"
        and h: "matchesFilter (currentSetting e) [] None x \<and>
           task_name x \<in> set (availableTaskNames e) \<and> currentTaskName e < task_name x"
      then have le: "t' \<le> task_name x" using nx(8) by (simp add: t'_def s1_def)
      show "shown e x"
      proof (cases "task_name x = t'")
        case True
        with h ne' have "matchesFilter (currentSetting e) t' None x"
          by (simp add: matchesFilter_def)
        with x have "x \<in> set (filteredData s1)"
          using nx(9) by (simp add: s1_def t'_def applyFilter_def)
        then have "shown s1 x" using list_shown nx(2,3) unfolding s1_def by blast
        then show ?thesis unfolding s1_def by (rule shown_next)
      next
        case False
        with le have "t' < task_name x" by simp
        then have "shown e2 x" using ih x h g2 by simp
        then show ?thesis unfolding e2_reach by (rule shown_later)
      qed
    qed
  qed
qed

lemma stepLength_in_avail:
  assumes "x \<in> set d" "matchesFilter st t None x" "key_frame_ids x = Some ks"
  shows "length ks \<in> set (stepLengthsFor d st t)"
proof -
  let ?f = "\<lambda>x. map_option length (key_frame_ids x)"
  have "x \<in> set (filter (\<lambda>x. ?f x \<noteq> None) (filter (matchesFilter st t None) d))"
    using assms by simp
  moreover have "length ks = (the \<circ> ?f) x" using assms(3) by simp
  ultimately have "length ks \<in> (the \<circ> ?f) `
      set (filter (\<lambda>x. ?f x \<noteq> None) (filter (matchesFilter st t None) d))"
    by (rule rev_image_eqI)
  then show ?thesis
    by (simp add: stepLengthsFor_def List.map_filter_def)
qed

lemma sorted_hd_le: "sorted xs \<Longrightarrow> m \<in> set xs \<Longrightarrow> hd xs \<le> (m::'a::linorder)"
  by (cases xs) auto

lemma tour_covers:
  assumes fp: "atFirstPosition s"
    and x: "x \<in> set (allData s)" "matchesFilter (currentSetting s) [] None x"
      "task_name x \<in> set (availableTaskNames s)" "key_frame_ids x = Some ks"
  shows "shown s x"
proof -
  from fp have wf: "wellFormed s" and i0: "currentIndex s = 0" and sy: "updateUI s = s"
    and fd: "filteredData s =
        applyFilter (allData s) (currentSetting s) (currentTaskName s) (currentStepLength s)"
    and ne: "currentTaskName s \<noteq> []"
    and first: "list_all (\<lambda>t. currentTaskName s \<le> t) (availableTaskNames s)"
    and av: "availableStepLengths s =
        stepLengthsFor (allData s) (currentSetting s) (currentTaskName s)"
    and st: "currentStepLength s =
        (if availableStepLengths s = [] then None else Some (hd (availableStepLengths s)))"
    by (simp_all add: atFirstPosition_def)
  from end_of_list [OF i0 wf] obtain k1 where
    sc: "sameCategory s ((navigateNext ^^ k1) s)" and wfe: "wellFormed ((navigateNext ^^ k1) s)"
    and ge: "\<not> currentIndex ((navigateNext ^^ k1) s)
                < int (length (filteredData ((navigateNext ^^ k1) s))) - 1"
    by blast
  define e0 where "e0 = (navigateNext ^^ k1) s"
  have g0: "allData e0 = allData s" "currentSetting e0 = currentSetting s"
    "currentTaskName e0 = currentTaskName s" "availableTaskNames e0 = availableTaskNames s"
    "availableStepLengths e0 = availableStepLengths s" "currentStepLength e0 = currentStepLength s"
    using sc by (simp_all add: sameCategory_def e0_def)
  note sp = step_phase [OF wfe ge, folded e0_def]
  show ?thesis
  proof (cases "task_name x = currentTaskName s")
    case True
    with x(2) have mt: "matchesFilter (currentSetting s) (currentTaskName s) None x"
      by (simp add: matchesFilter_def)
    have mem: "length ks \<in> set (availableStepLengths s)"
      unfolding av by (rule stepLength_in_avail [OF x(1) mt x(4)])
    then have stn: "currentStepLength s = Some (hd (availableStepLengths s))" using st by auto
    have so: "sorted (availableStepLengths s)" using wf by (simp add: wellFormed_def)
    have le: "hd (availableStepLengths s) \<le> length ks" by (rule sorted_hd_le [OF so mem])
    show ?thesis
    proof (cases "length ks = hd (availableStepLengths s)")
      case True
      then have "matchesFilter (currentSetting s) (currentTaskName s) (currentStepLength s) x"
        using mt x(4) by (simp add: matchesFilter_def stn)
      then have "x \<in> set (filteredData s)" using x(1) by (simp add: fd applyFilter_def)
      then show ?thesis by (rule list_shown [OF i0 sy])
    next
      case False
      with le have lt: "hd (availableStepLengths s) < length ks" by simp
      have "matchesFilter (currentSetting s) (currentTaskName s) (Some (length ks)) x"
        using mt x(4) by (simp add: matchesFilter_def)
      then have "x \<in> set (applyFilter (allData e0) (currentSetting e0) (currentTaskName e0)
                            (Some (length ks)))"
        using x(1) by (simp add: g0 applyFilter_def)
      moreover have "currentStepLength e0 = Some (hd (availableStepLengths s))"
        "length ks \<in> set (availableStepLengths e0)"
        using stn mem by (simp_all add: g0)
      ultimately have "shown e0 x" using sp lt by blast
      then show ?thesis unfolding e0_def by (rule shown_later)
    qed
  next
    case False
    from first x(3) have "currentTaskName s \<le> task_name x" by (simp add: list_all_iff)
    with False have lt: "currentTaskName s < task_name x" by simp
    from sp obtain k2 where eot: "endOfTask e0 ((navigateNext ^^ k2) e0)" by blast
    define e1 where "e1 = (navigateNext ^^ k2) e0"
    from eot have g1: "wellFormed e1" "\<not> currentIndex e1 < int (length (filteredData e1)) - 1"
      "noNextStep e1" "allData e1 = allData s" "currentSetting e1 = currentSetting s"
      "currentTaskName e1 = currentTaskName s" "availableTaskNames e1 = availableTaskNames s"
      using g0 by (simp_all add: endOfTask_def e1_def)
    have ne1: "currentTaskName e1 \<noteq> []" using ne g1(6) by simp
    have "shown e1 x"
      using task_phase [OF g1(1) g1(2) g1(3) ne1] x lt g1 by simp
    then have "shown e0 x" unfolding e1_def by (rule shown_later)
    then show ?thesis unfolding e0_def by (rule shown_later)
  qed
qed

text \<open>
  Coverage and stop. From the first position of a setting, repeated \<open>navigateNext\<close>
  puts on display every loaded sample that matches the setting, has a task name
  among the task options and has key frames; the samples of the first list come
  first, in load order; and after finitely many calls a further call changes nothing.
\<close>

lemma advance_covers:
  assumes "atFirstPosition s"
  shows "(\<forall>x \<in> set (allData s).
            matchesFilter (currentSetting s) [] None x \<and>
            task_name x \<in> set (availableTaskNames s) \<and> key_frame_ids x \<noteq> None
            \<longrightarrow> (\<exists>k. displayedAt s k = ShowSample x)) \<and>
         (\<forall>j < length (filteredData s). displayedAt s j = ShowSample (filteredData s ! j)) \<and>
         (\<exists>N. \<forall>k \<ge> N. (navigateNext ^^ k) s = (navigateNext ^^ N) s)"
proof (intro conjI)
  show "\<forall>x \<in> set (allData s).
            matchesFilter (currentSetting s) [] None x \<and>
            task_name x \<in> set (availableTaskNames s) \<and> key_frame_ids x \<noteq> None
            \<longrightarrow> (\<exists>k. displayedAt s k = ShowSample x)"
    using tour_covers [OF assms] unfolding shown_def by blast
  show "\<forall>j < length (filteredData s). displayedAt s j = ShowSample (filteredData s ! j)"
    using assms displayed_in_list [of s] by (simp add: atFirstPosition_def)
  show "\<exists>N. \<forall>k \<ge> N. (navigateNext ^^ k) s = (navigateNext ^^ N) s"
    using assms eventually_constant [of s] by (simp add: atFirstPosition_def)
qed

section \<open>The tour from the first position of setting forward\<close>

text \<open>
  C5 at a failing input. Over the forward samples a (task t1, 1 key frame),
  b (task t2, 1 key frame) and c (task t2, 2 key frames), selecting task t1 after
  start-up gives \<open>firstPosition ''forward''\<close>, the first position of setting forward:
  first task, first step length of that task, index 0, list and display in step.
  From there the display shows a, b, c, c. The first call moves to task t2:
  \<open>moveToNextTask\<close> filters with the step length cleared and only then lets
  \<open>populateStepLengthsForCurrentFilters\<close> select the step length 1, so the list is
  [b, c] under the selection (forward, t2, 1), where the task selector on the same
  state lists [b]. The third call moves to the step length 2 and lists c, which the
  second call has shown already. So for no \<open>N\<close> is every sample on display exactly
  once over the first \<open>N\<close> calls with a further call changing nothing.
\<close>

theorem advance_tour_repeats:
  "onTaskChange ''t1'' (init [sampleA, sampleB, sampleC]) = firstPosition ''forward'' \<and>
   atFirstPosition (firstPosition ''forward'') \<and>
   map (displayedAt (firstPosition ''forward'')) [0, 1, 2, 3]
     = [ShowSample sampleA, ShowSample sampleB, ShowSample sampleC, ShowSample sampleC] \<and>
   currentTaskName (navigateNext (firstPosition ''forward'')) = ''t2'' \<and>
   currentStepLength (navigateNext (firstPosition ''forward'')) = Some 1 \<and>
   filteredData (navigateNext (firstPosition ''forward'')) = [sampleB, sampleC] \<and>
   filteredData (onTaskChange ''t2'' (firstPosition ''forward'')) = [sampleB] \<and>
   \<not> (\<exists>N. fullTour (firstPosition ''forward'') N)"
proof -
  have i: "onTaskChange ''t1'' (init [sampleA, sampleB, sampleC]) = firstPosition ''forward''"
    by (simp add: firstPosition_def init_defs eval_defs Let_def)
  have sl: "stepLengthsFor [sampleA, sampleB, sampleC] ''forward'' ''t1'' = [1]"
    by (simp add: stepLengthsFor_def List.map_filter_def sampleA_def sampleB_def sampleC_def
        matchesFilter_def derivedSetting_code getSettingFromType_def)
  have fp: "atFirstPosition (firstPosition ''forward'')"
    unfolding atFirstPosition_def firstPosition_def
    by (simp add: wellFormed_def sl) (simp add: viewerAt_def updateUI_idem)
  have b: "\<not> fullTour (firstPosition ''forward'') N" for N
    by (rule no_fullTour [where x = sampleC])
       (simp_all add: tour_forward(2-4) firstPosition_fields)
  have c: "map (displayedAt (firstPosition ''forward'')) [0, 1, 2, 3]
     = [ShowSample sampleA, ShowSample sampleB, ShowSample sampleC, ShowSample sampleC]"
    by (simp add: displayedAt_def funpow_2_3 tour_forward)
  have d: "currentTaskName (navigateNext (firstPosition ''forward'')) = ''t2''"
    "currentStepLength (navigateNext (firstPosition ''forward'')) = Some 1"
    "filteredData (navigateNext (firstPosition ''forward'')) = [sampleB, sampleC]"
    by (simp_all add: tour_forward(2))
  have l: "filteredData (onTaskChange ''t2'' (firstPosition ''forward'')) = [sampleB]"
    by (simp add: firstPosition_def init_defs eval_defs Let_def)
  from i fp b c d l show ?thesis by blast
qed

section \<open>Invariants of the operations\<close>

text \<open>
  Start-up establishes the well-formedness of the selectors and every operation
  keeps it; the index is never negative; an empty list is displayed as the no-data
  page.
\<close>

lemma wellFormed_iff:
  "wellFormed s \<longleftrightarrow>
     stepOptions s = availableStepLengths s \<and>
     sorted (availableStepLengths s) \<and> distinct (availableStepLengths s) \<and>
     sorted (availableTaskNames s) \<and> distinct (availableTaskNames s) \<and>
     (\<forall>n. currentStepLength s = Some n \<longrightarrow> n \<in> set (availableStepLengths s)) \<and>
     (currentTaskName s = [] \<or> currentTaskName s \<in> set (availableTaskNames s))"
  by (auto simp: wellFormed_def split: option.splits)

lemma wellFormed_fields:
  assumes "wellFormed s"
    and "stepOptions t = stepOptions s" "availableStepLengths t = availableStepLengths s"
    and "availableTaskNames t = availableTaskNames s"
    and "currentStepLength t = currentStepLength s" "currentTaskName t = currentTaskName s"
  shows "wellFormed t"
  using assms by (simp add: wellFormed_iff)

lemma wellFormed_updateUI [simp]: "wellFormed (updateUI s) = wellFormed s"
  by (simp add: wellFormed_iff)

lemma wellFormed_filterData [simp]: "wellFormed (filterData s) = wellFormed s"
  by (simp add: wellFormed_iff)

lemma wellFormed_updateFilterUI: "wellFormed s \<Longrightarrow> wellFormed (updateFilterUI s)"
  by (auto simp: updateFilterUI_def wellFormed_iff Let_def split: option.splits)

lemma wellFormed_populate:
  assumes "sorted (availableTaskNames s)" "distinct (availableTaskNames s)"
    and "currentTaskName s = [] \<or> currentTaskName s \<in> set (availableTaskNames s)"
    and "currentStepLength s = None"
  shows "wellFormed (populateStepLengthsForCurrentFilters s)"
  unfolding wellFormed_iff
  using assms
  by (simp add: populate_avail populate_options populate_step_None stepLengthsFor_sorted Let_def)

lemma wellFormed_init: "wellFormed (init samples)"
proof -
  define s0 where "s0 = filterData (constructorState\<lparr>allData := samples\<rparr>)"
  define names where "names = sort (remdups (filter (\<lambda>n. n \<noteq> []) (map task_name samples)))"
  define lens where "lens = sort (remdups (List.map_filter
                       (\<lambda>item. map_option length (key_frame_ids item)) samples))"
  have f0: "allData s0 = samples" "currentTaskName s0 = []" "currentStepLength s0 = None"
    by (simp_all add: s0_def constructorState_def)
  have sd: "sorted names" "distinct names" "sorted lens" "distinct lens"
    by (simp_all add: names_def lens_def)
  have pf: "populateFilterOptions s0 =
      updateFilterSelectors (s0\<lparr>availableTaskNames := names, availableStepLengths := lens\<rparr>)"
    by (simp add: populateFilterOptions_def Let_def f0 names_def lens_def)
  have "wellFormed (populateFilterOptions s0)"
    unfolding pf updateFilterSelectors_def Let_def wellFormed_iff
    using sd by (simp add: f0)
  then show ?thesis
    unfolding init_def s0_def [symmetric]
    by (simp add: wellFormed_updateFilterUI)
qed

lemma wellFormed_navigateNext: "wellFormed s \<Longrightarrow> wellFormed (navigateNext s)"
proof -
  assume wf: "wellFormed s"
  show ?thesis
  proof (cases "currentIndex s < int (length (filteredData s)) - 1")
    case True
    then show ?thesis by (rule progress_index(1) [OF wf])
  next
    case ge: False
    show ?thesis
    proof (cases "noNextStep s")
      case False
      then show ?thesis by (rule progress_step(1) [OF wf ge])
    next
      case ns: True
      show ?thesis
      proof (cases "noNextTask s")
        case False
        then show ?thesis by (rule progress_task(1) [OF wf ge ns])
      next
        case nt: True
        show ?thesis
        proof (cases "indexOf settings (currentSetting s) < 2")
          case True
          then show ?thesis by (rule progress_setting(1) [OF wf ge ns nt])
        next
          case False
          have "navigateNext s = s\<lparr>currentStepLength := None, currentTaskName := []\<rparr>"
            by (rule stuck_after_clear(1) [OF ge ns nt False])
          then show ?thesis using wf by (simp add: wellFormed_iff)
        qed
      qed
    qed
  qed
qed

lemma wellFormed_moveToPreviousSetting:
  "wellFormed s \<Longrightarrow> wellFormed (snd (moveToPreviousSetting s))"
  by (simp add: moveToPreviousSetting_def Let_def wellFormed_updateFilterUI
      wellFormed_fields [where s = s])

lemma wellFormed_moveToPreviousTask:
  assumes wf: "wellFormed s" and st: "currentStepLength s = None"
  shows "wellFormed (snd (moveToPreviousTask s))"
proof (cases "noPreviousTask s")
  case True
  have "wellFormed (s\<lparr>currentTaskName := []\<rparr>)" using wf by (simp add: wellFormed_iff)
  then show ?thesis
    using True by (simp add: moveToPreviousTask_fall wellFormed_moveToPreviousSetting)
next
  case False
  let ?nm = "availableTaskNames s"
  let ?i = "indexOf ?nm (currentTaskName s)"
  from False have ne: "currentTaskName s \<noteq> []" and gt: "?i > 0"
    by (auto simp: noPreviousTask_def)
  have lt: "?i < int (length ?nm)" by (rule indexOf_lt)
  then have j: "nat (?i - 1) < length ?nm" using gt by linarith
  from wf have so: "sorted ?nm" and di: "distinct ?nm" by (auto simp: wellFormed_iff)
  note mv = moveToPreviousTask_moved [OF ne gt]
  show ?thesis
    unfolding wellFormed_iff
    using mv(2) mv(4) mv(5) mv(6) mv(10) so di j
    by (auto simp: stepLengthsFor_sorted split: option.splits)
qed

lemma wellFormed_navigatePrevious: "wellFormed s \<Longrightarrow> wellFormed (navigatePrevious s)"
proof -
  assume wf: "wellFormed s"
  show ?thesis
  proof (cases "currentIndex s > 0")
    case True
    then show ?thesis using wf by (simp add: navigatePrevious_def wellFormed_fields [where s = s])
  next
    case idx: False
    show ?thesis
    proof (cases "noPreviousStep s")
      case True
      have "wellFormed (s\<lparr>currentStepLength := None\<rparr>)" using wf by (simp add: wellFormed_iff)
      then have "wellFormed (snd (moveToPreviousTask (s\<lparr>currentStepLength := None\<rparr>)))"
        by (rule wellFormed_moveToPreviousTask) simp
      then show ?thesis using idx True by (simp add: navigatePrevious_def moveToPreviousCategory_fall)
    next
      case False
      let ?av = "availableStepLengths s"
      from False obtain n where st: "currentStepLength s = Some n" and gt: "indexOf ?av n > 0"
        by (auto simp: noPreviousStep_def split: option.splits)
      from wf have op: "stepOptions s = ?av" by (simp add: wellFormed_iff)
      have "indexOf ?av n < int (length ?av)" by (rule indexOf_lt)
      then have "nat (indexOf ?av n - 1) < length ?av" using gt by linarith
      then have m: "?av ! nat (indexOf ?av n - 1) \<in> set ?av" by (rule nth_mem)
      show ?thesis
        using idx wf m
        by (simp add: navigatePrevious_def moveToPreviousCategory_step [OF st gt op] wellFormed_iff)
    qed
  qed
qed

lemma wellFormed_selectors:
  assumes wf: "wellFormed s"
  shows "wellFormed (onSettingChange v s)"
    and "v = [] \<or> v \<in> set (availableTaskNames s) \<Longrightarrow> wellFormed (onTaskChange v s)"
    and "n \<in> set (stepOptions s) \<Longrightarrow> wellFormed (onStepChange (Some n) s)"
proof -
  from wf have nm: "sorted (availableTaskNames s)" "distinct (availableTaskNames s)"
    "currentTaskName s = [] \<or> currentTaskName s \<in> set (availableTaskNames s)"
    by (simp_all add: wellFormed_iff)
  show "wellFormed (onSettingChange v s)"
    unfolding onSettingChange_def using nm by (simp add: wellFormed_populate)
  show "wellFormed (onTaskChange v s)" if "v = [] \<or> v \<in> set (availableTaskNames s)"
    unfolding onTaskChange_def using nm that by (simp add: wellFormed_populate)
  show "wellFormed (onStepChange (Some n) s)" if "n \<in> set (stepOptions s)"
    unfolding onStepChange_def using wf that by (simp add: wellFormed_iff)
qed

lemma nonneg_updateFilterUI: "0 \<le> currentIndex a \<Longrightarrow> 0 \<le> currentIndex (updateFilterUI a)"
  using updateFilterUI_cases [of a] by auto

lemma currentIndex_nonneg:
  assumes "0 \<le> currentIndex s"
  shows "0 \<le> currentIndex (navigateNext s)"
    and "0 \<le> currentIndex (navigatePrevious s)"
    and "currentIndex (onSettingChange v s) = 0"
    and "currentIndex (onTaskChange v s) = 0"
    and "currentIndex (onStepChange w s) = 0"
proof -
  have a: "0 \<le> currentIndex (snd (moveToNextSetting t))" if "0 \<le> currentIndex t" for t
    using that by (simp add: moveToNextSetting_def Let_def nonneg_updateFilterUI)
  have b: "0 \<le> currentIndex (snd (moveToNextTask t))" if "0 \<le> currentIndex t" for t
    using that by (simp add: moveToNextTask_def Let_def nonneg_updateFilterUI a)
  have c: "0 \<le> currentIndex (snd (moveToNextCategory t))" if "0 \<le> currentIndex t" for t
    using that by (simp add: moveToNextCategory_def Let_def nonneg_updateFilterUI b split: option.splits)
  have a': "0 \<le> currentIndex (snd (moveToPreviousSetting t))" if "0 \<le> currentIndex t" for t
    using that by (simp add: moveToPreviousSetting_def Let_def nonneg_updateFilterUI)
  have b': "0 \<le> currentIndex (snd (moveToPreviousTask t))" if "0 \<le> currentIndex t" for t
    using that by (simp add: moveToPreviousTask_def Let_def nonneg_updateFilterUI a')
  have c': "0 \<le> currentIndex (snd (moveToPreviousCategory t))" if "0 \<le> currentIndex t" for t
    using that by (simp add: moveToPreviousCategory_def Let_def nonneg_updateFilterUI b' split: option.splits)
  show "0 \<le> currentIndex (navigateNext s)"
    using assms c [OF assms] by (simp add: navigateNext_def)
  show "0 \<le> currentIndex (navigatePrevious s)"
    using assms c' [OF assms] by (simp add: navigatePrevious_def)
  show "currentIndex (onSettingChange v s) = 0" by (simp add: onSettingChange_def)
  show "currentIndex (onTaskChange v s) = 0" by (simp add: onTaskChange_def)
  show "currentIndex (onStepChange w s) = 0" by (simp add: onStepChange_def)
qed

lemma empty_list_display:
  "filteredData s = [] \<Longrightarrow> dataDisplay (updateUI s) = NoData"
  by (simp add: updateUI_def)

end
